theory Spec2Isabelle
  imports Main "HOL-Library.Log_Nat" "HOL-Library.Signed_Division"
begin

section \<open>Machine arithmetic of the Go program\<close>

subsection \<open>The type \<open>int\<close>\<close>

text \<open>
  Go's \<open>int\<close> is taken at 64 bits, two's complement: every integer operation of the
  source is followed by \<open>wrap64\<close>.
\<close>

definition wrap64 :: "int \<Rightarrow> int" where
  "wrap64 x = (x + 2 ^ 63) mod 2 ^ 64 - 2 ^ 63"

subsection \<open>The type \<open>float64\<close>\<close>

text \<open>
  A finite \<open>float64\<close> is the rational number it denotes. \<open>fl\<close> rounds a rational to
  the nearest number with a 53 bit significand, ties to the even significand, which is
  what every basic operation of IEEE 754 binary64 does to its exact result. The exponent
  range of binary64 (\<open>2 powi (-1022)\<close> up to \<open>2 powi 1024\<close>) is not modelled: the
  operands below come from 64 bit integers, whose quotients, products and sums stay far
  inside it. \<open>expo x\<close> is the binary exponent of a positive \<open>x\<close>.
\<close>

definition expo :: "rat \<Rightarrow> int" where
  "expo x = (if 1 \<le> x then bitlen \<lfloor>x\<rfloor> - 1 else - bitlen (\<lceil>1 / x\<rceil> - 1))"

definition rne :: "rat \<Rightarrow> int" where
  "rne x = (let f = \<lfloor>x\<rfloor>; d = x - of_int f in
     if d < 1 / 2 then f else if 1 / 2 < d then f + 1 else if even f then f else f + 1)"

definition fl :: "rat \<Rightarrow> rat" where
  "fl x = (if x = 0 then 0 else
     let u = 2 powi (expo \<bar>x\<bar> - 52) in of_int (rne (x / u)) * u)"

text \<open>The conversion \<open>float64(n)\<close> and the operators \<open>+\<close>, \<open>-\<close>, \<open>*\<close>.\<close>

definition f64_of_int :: "int \<Rightarrow> rat" where
  "f64_of_int n = fl (of_int n)"

definition fadd :: "rat \<Rightarrow> rat \<Rightarrow> rat" where
  "fadd a b = fl (a + b)"

definition fsub :: "rat \<Rightarrow> rat \<Rightarrow> rat" where
  "fsub a b = fl (a - b)"

definition fmul :: "rat \<Rightarrow> rat \<Rightarrow> rat" where
  "fmul a b = fl (a * b)"

text \<open>
  Division of floats does not panic in Go: a zero divisor gives an infinity or a NaN.
  The only use the program makes of such a value is to multiply and add it to finite
  values and to convert the outcome to \<open>int\<close>, and the conversion of a non-finite float
  to an integer has no result that the language defines. So \<open>fdiv\<close> answers \<open>None\<close> for
  a zero divisor and the caller reports the fault \<open>UndefinedConversion\<close>.
\<close>

definition fdiv :: "rat \<Rightarrow> rat \<Rightarrow> rat option" where
  "fdiv a b = (if b = 0 then None else Some (fl (a / b)))"

text \<open>\<open>math.Round\<close>: nearest integer, halves away from zero.\<close>

definition math_Round :: "rat \<Rightarrow> int" where
  "math_Round x = (if 0 \<le> x then \<lfloor>x + 1 / 2\<rfloor> else \<lceil>x - 1 / 2\<rceil>)"

datatype fault = UndefinedConversion

text \<open>
  The conversion \<open>int(f)\<close> truncates towards zero; outside the range of \<open>int\<close> its result
  is left to the implementation.
\<close>

definition int_of_f64 :: "rat \<Rightarrow> fault + int" where
  "int_of_f64 x =
     (if - (2 ^ 63) \<le> x \<and> x < 2 ^ 63 then Inr (if 0 \<le> x then \<lfloor>x\<rfloor> else \<lceil>x\<rceil>)
      else Inl UndefinedConversion)"

section \<open>The schedule engine (internal/timer/timer.go)\<close>

record LightTimer =
  StartHour :: int
  PlateauHour :: int
  EndHour :: int
  StepSize :: int
  PlateauOffset :: int
  Brightness :: int

text \<open>The fields of a \<open>time.Time\<close> that \<open>GetExpectedBrightness\<close> reads.\<close>

record clock =
  Hour :: int
  Minute :: int
  Second :: int

definition valid_clock :: "clock \<Rightarrow> bool" where
  "valid_clock now \<longleftrightarrow>
     0 \<le> Hour now \<and> Hour now < 24 \<and> 0 \<le> Minute now \<and> Minute now < 60 \<and>
     0 \<le> Second now \<and> Second now < 60"

text \<open>The checks of \<open>LoadConfig\<close>; \<open>%\<close> is Go's truncated remainder.\<close>

definition LoadConfig_accepts :: "LightTimer \<Rightarrow> bool" where
  "LoadConfig_accepts lt \<longleftrightarrow>
     \<not> EndHour lt \<le> wrap64 (StartHour lt + PlateauHour lt) \<and> \<not> StepSize lt smod 5 \<noteq> 0"

definition nowSec_of :: "clock \<Rightarrow> int" where
  "nowSec_of now =
     wrap64 (wrap64 (wrap64 (Hour now * 3600) + wrap64 (Minute now * 60)) + Second now)"

definition startSec_of :: "LightTimer \<Rightarrow> int" where
  "startSec_of lt = wrap64 (StartHour lt * 3600)"

definition endSec_of :: "LightTimer \<Rightarrow> int" where
  "endSec_of lt = wrap64 (EndHour lt * 3600)"

definition plateauSec_of :: "LightTimer \<Rightarrow> int" where
  "plateauSec_of lt = wrap64 (PlateauHour lt * 3600)"

definition baselineRamp :: "LightTimer \<Rightarrow> rat" where
  "baselineRamp lt =
     fl (f64_of_int (wrap64 (wrap64 (endSec_of lt - startSec_of lt) - plateauSec_of lt)) / 2)"

definition offsetSec :: "LightTimer \<Rightarrow> rat" where
  "offsetSec lt = f64_of_int (wrap64 (PlateauOffset lt * 3600))"

definition sunriseRamp :: "LightTimer \<Rightarrow> rat" where
  "sunriseRamp lt = fadd (baselineRamp lt) (offsetSec lt)"

definition sunsetRamp :: "LightTimer \<Rightarrow> rat" where
  "sunsetRamp lt = fsub (baselineRamp lt) (offsetSec lt)"

text \<open>
  The interpolation and quantisation that the sunrise and the sunset branch share, for
  the numerator \<open>num\<close> of the fraction and the ramp duration \<open>ramp\<close>. Go allows an
  implementation to fuse \<open>x + y * z\<close> into one operation with a single rounding;
  \<open>fused\<close> says whether the implementation does.
\<close>

definition rampLevel :: "bool \<Rightarrow> LightTimer \<Rightarrow> int \<Rightarrow> rat \<Rightarrow> fault + int" where
  "rampLevel fused lt num ramp =
     (case fdiv (f64_of_int num) ramp of
        None \<Rightarrow> Inl UndefinedConversion
      | Some fraction \<Rightarrow>
          let step = f64_of_int (StepSize lt);
              span = fsub (f64_of_int (Brightness lt)) step;
              brightness = (if fused then fl (step + fraction * span)
                            else fadd step (fmul fraction span))
          in (case fdiv brightness step of
                None \<Rightarrow> Inl UndefinedConversion
              | Some q \<Rightarrow>
                  (case int_of_f64 (fmul (of_int (math_Round q)) step) of
                     Inl e \<Rightarrow> Inl e
                   | Inr result \<Rightarrow>
                       Inr (if result > Brightness lt then Brightness lt else result))))"

definition expectedAt :: "bool \<Rightarrow> LightTimer \<Rightarrow> int \<Rightarrow> fault + int" where
  "expectedAt fused lt nowSec =
     (let startSec = startSec_of lt; endSec = endSec_of lt; plateauSec = plateauSec_of lt in
      if nowSec < startSec \<or> nowSec \<ge> endSec then Inr 0
      else if f64_of_int nowSec < fadd (f64_of_int startSec) (sunriseRamp lt)
        then rampLevel fused lt (wrap64 (nowSec - startSec)) (sunriseRamp lt)
      else
        (case int_of_f64 (sunriseRamp lt) of
           Inl e \<Rightarrow> Inl e
         | Inr sunrise \<Rightarrow>
             let plateauStart = wrap64 (startSec + sunrise);
                 plateauEnd = wrap64 (plateauStart + plateauSec)
             in if nowSec \<ge> plateauStart \<and> nowSec < plateauEnd then Inr (Brightness lt)
                else if nowSec < endSec
                  then rampLevel fused lt (wrap64 (endSec - nowSec)) (sunsetRamp lt)
                else Inr 0))"

definition GetExpectedBrightness :: "bool \<Rightarrow> LightTimer \<Rightarrow> clock \<Rightarrow> fault + int" where
  "GetExpectedBrightness fused lt now = expectedAt fused lt (nowSec_of now)"

text \<open>The configuration of the README and of the specification's example.\<close>

definition example_timer :: LightTimer where
  "example_timer =
     \<lparr>StartHour = 8, PlateauHour = 6, EndHour = 20, StepSize = 10, PlateauOffset = - 1,
      Brightness = 100\<rparr>"

text \<open>
  The precondition under which the claims speak of the schedule: what \<open>LoadConfig\<close>
  checks, together with the ranges that the data model gives the fields (hours of a day, a
  duration that is not negative, a positive step and a positive maximum).
\<close>

definition config_invariant :: "LightTimer \<Rightarrow> bool" where
  "config_invariant lt \<longleftrightarrow>
     LoadConfig_accepts lt \<and> 0 \<le> StartHour lt \<and> StartHour lt < 24 \<and>
     0 \<le> EndHour lt \<and> EndHour lt < 24 \<and> 0 \<le> PlateauHour lt \<and>
     0 < StepSize lt \<and> 0 < Brightness lt"

text \<open>
  Every field fits 32 bits. Inside this range no integer operation of
  \<open>GetExpectedBrightness\<close> wraps and every conversion between \<open>int\<close> and \<open>float64\<close> is
  exact.
\<close>

definition fits32 :: "LightTimer \<Rightarrow> bool" where
  "fits32 lt \<longleftrightarrow>
     \<bar>StartHour lt\<bar> < 2 ^ 31 \<and> \<bar>PlateauHour lt\<bar> < 2 ^ 31 \<and> \<bar>EndHour lt\<bar> < 2 ^ 31 \<and>
     \<bar>StepSize lt\<bar> < 2 ^ 31 \<and> \<bar>PlateauOffset lt\<bar> < 2 ^ 31 \<and> \<bar>Brightness lt\<bar> < 2 ^ 31"

text \<open>
  The windows of the two ramps, as the branch conditions of \<open>expectedAt\<close> delimit them:
  the sunrise before \<open>startSec + sunriseRamp\<close>, the sunset from the end of the plateau.
\<close>

definition in_window :: "LightTimer \<Rightarrow> int \<Rightarrow> bool" where
  "in_window lt nowSec \<longleftrightarrow> startSec_of lt \<le> nowSec \<and> nowSec < endSec_of lt"

definition in_sunrise :: "LightTimer \<Rightarrow> int \<Rightarrow> bool" where
  "in_sunrise lt nowSec \<longleftrightarrow>
     in_window lt nowSec \<and> of_int nowSec < of_int (startSec_of lt) + sunriseRamp lt"

definition in_sunset :: "LightTimer \<Rightarrow> int \<Rightarrow> bool" where
  "in_sunset lt nowSec \<longleftrightarrow>
     in_window lt nowSec \<and>
     of_int (startSec_of lt) + sunriseRamp lt + of_int (plateauSec_of lt) \<le> of_int nowSec"

text \<open>
  Names for the intermediate values of \<open>rampLevel\<close>: the brightness before quantisation,
  the number of steps it rounds to, and the clamped product.
\<close>

definition raw :: "bool \<Rightarrow> int \<Rightarrow> int \<Rightarrow> rat \<Rightarrow> rat" where
  "raw fused S B f = (if fused then fl (of_int S + f * of_int (B - S))
                      else fl (of_int S + fl (f * of_int (B - S))))"

definition steps :: "bool \<Rightarrow> int \<Rightarrow> int \<Rightarrow> rat \<Rightarrow> int" where
  "steps fused S B f = math_Round (fl (raw fused S B f / of_int S))"

definition quantised :: "int \<Rightarrow> int \<Rightarrow> int \<Rightarrow> int" where
  "quantised S B k = (if k * S > B then B else k * S)"

definition level :: "bool \<Rightarrow> LightTimer \<Rightarrow> int \<Rightarrow> int \<Rightarrow> int" where
  "level fused lt num R =
     quantised (StepSize lt) (Brightness lt)
       (steps fused (StepSize lt) (Brightness lt) (fl (of_int num / of_int R)))"

text \<open>
  The value that the sunrise and the sunset branch compute for the numerator \<open>num\<close> and
  the ramp duration \<open>ramp\<close> when no operation faults: the steps of the interpolated
  brightness, times the step size, clamped to the maximum.
\<close>

definition interpolated :: "bool \<Rightarrow> LightTimer \<Rightarrow> int \<Rightarrow> rat \<Rightarrow> int" where
  "interpolated fused lt num ramp =
     quantised (StepSize lt) (Brightness lt)
       (steps fused (StepSize lt) (Brightness lt) (fl (of_int num / ramp)))"

text \<open>The ramp durations in whole seconds, which is what they are when nothing wraps.\<close>

definition sunriseSecs :: "LightTimer \<Rightarrow> int" where
  "sunriseSecs lt =
     1800 * (EndHour lt - StartHour lt - PlateauHour lt) + 3600 * PlateauOffset lt"

definition sunsetSecs :: "LightTimer \<Rightarrow> int" where
  "sunsetSecs lt =
     1800 * (EndHour lt - StartHour lt - PlateauHour lt) - 3600 * PlateauOffset lt"

section \<open>The device session (internal/api/mh_api.go)\<close>

subsection \<open>Decoded JSON and the network\<close>

text \<open>
  A response body decoded into \<open>map[string]interface{}\<close>: objects are association lists
  read with \<open>map_of\<close>, numbers are the \<open>float64\<close> values the decoder produces (the
  negative zero apart).
\<close>

datatype json = JNull | JBool bool | JNum rat | JStr string | JArr "json list"
  | JObj "(string \<times> json) list"

text \<open>The type assertions \<open>.(string)\<close>, \<open>.(map[string]interface{})\<close> and \<open>.([]interface{})\<close>.\<close>

fun as_string :: "json option \<Rightarrow> string option" where
  "as_string (Some (JStr s)) = Some s"
| "as_string _ = None"

fun as_object :: "json option \<Rightarrow> (string \<times> json) list option" where
  "as_object (Some (JObj kvs)) = Some kvs"
| "as_object _ = None"

fun as_array :: "json option \<Rightarrow> json list option" where
  "as_array (Some (JArr xs)) = Some xs"
| "as_array _ = None"

text \<open>
  What one HTTP exchange comes to: \<open>http.DefaultClient.Do\<close> fails, the body does not
  decode, or it decodes to an object.
\<close>

datatype reply = ConnFail | Undecodable | Decoded "(string \<times> json) list"

datatype body = LoginBody string string | ListBody | LightBody int string string
  | SwitchBody bool string

text \<open>
  A request as the server sees it: the URL, the token and the device id of the
  \<open>systemData\<close> header, and the payload.
\<close>

datatype request = Request (url: string) (hdr_token: string) (hdr_device: string)
  (payload: body)

text \<open>
  The world outside the process: \<open>net w n\<close> is the outcome of the exchange number \<open>n\<close>,
  \<open>sent w\<close> the requests issued so far, \<open>wall w n\<close> the wall clock, in nanoseconds since
  the Unix epoch, while \<open>n\<close> requests have been issued.
\<close>

record world =
  net :: "nat \<Rightarrow> reply"
  sent :: "request list"
  wall :: "nat \<Rightarrow> int"

definition time_Now :: "world \<Rightarrow> int" where
  "time_Now w = wall w (length (sent w))"

text \<open>\<open>time.Since\<close> saturates at the bounds of \<open>time.Duration\<close>.\<close>

definition time_Since :: "world \<Rightarrow> int \<Rightarrow> int" where
  "time_Since w t = max (- (2 ^ 63)) (min (2 ^ 63 - 1) (time_Now w - t))"

text \<open>The zero \<open>time.Time\<close>: the first of January of the year 1.\<close>

definition zero_time :: int where
  "zero_time = - 62135596800 * 1000000000"

subsection \<open>The session\<close>

record MarsHydroAPI =
  Email :: string
  Password :: string
  WifiName :: string
  Token :: string
  Timezone :: string
  Language :: string
  BaseURL :: string
  LastLoginTime :: int
  LoginInterval :: int
  DeviceID :: string
  GroupID :: string

definition NewMarsHydroAPI ::
    "string \<Rightarrow> string \<Rightarrow> string \<Rightarrow> string \<Rightarrow> string \<Rightarrow> MarsHydroAPI" where
  "NewMarsHydroAPI email password wifiName timezone language =
     \<lparr>Email = email, Password = password, WifiName = wifiName, Token = '''',
      Timezone = timezone, Language = language,
      BaseURL = ''https://api.lgledsolutions.com/api/android'',
      LastLoginTime = zero_time, LoginInterval = 300 * 1000000000,
      DeviceID = '''', GroupID = ''''\<rparr>"

datatype error = ErrTransport | ErrDecode | ErrInvalidLoginResponse | ErrTokenNotFound
  | ErrRetrievingDevices | ErrNoLightDevices | ErrInvalidDeviceData | ErrDeviceIdNotFound
  | ErrReceivedErrorResponse

text \<open>
  Building the request, sending it and decoding the answer. \<open>http.NewRequest\<close> fails only
  on a method or URL that does not parse, which the constant URLs exclude.
\<close>

definition http_post :: "string \<Rightarrow> MarsHydroAPI \<Rightarrow> body \<Rightarrow> world \<Rightarrow> reply \<times> world" where
  "http_post path api b w =
     (net w (length (sent w)),
      w\<lparr>sent := sent w @ [Request (BaseURL api @ path) (Token api) (DeviceID api) b]\<rparr>)"

definition Login :: "MarsHydroAPI \<Rightarrow> world \<Rightarrow> error option \<times> MarsHydroAPI \<times> world" where
  "Login api w =
     (if Token api \<noteq> '''' \<and> time_Since w (LastLoginTime api) < LoginInterval api
      then (None, api, w)
      else
        (case http_post ''/ulogin/mailLogin/v1'' api (LoginBody (Email api) (Password api)) w of
           (ConnFail, w') \<Rightarrow> (Some ErrTransport, api, w')
         | (Undecodable, w') \<Rightarrow> (Some ErrDecode, api, w')
         | (Decoded resData, w') \<Rightarrow>
             (case as_object (map_of resData ''data'') of
                None \<Rightarrow> (Some ErrInvalidLoginResponse, api, w')
              | Some d \<Rightarrow>
                  (case as_string (map_of d ''token'') of
                     None \<Rightarrow> (Some ErrTokenNotFound, api, w')
                   | Some token \<Rightarrow>
                       (None, api\<lparr>Token := token, LastLoginTime := time_Now w'\<rparr>, w')))))"

definition ensureToken :: "MarsHydroAPI \<Rightarrow> world \<Rightarrow> error option \<times> MarsHydroAPI \<times> world" where
  "ensureToken api w = (if Token api = '''' then Login api w else (None, api, w))"

text \<open>
  \<open>ToggleSwitch\<close> calls itself after an expired token, so it need not return: \<open>None\<close> is
  the run that never does.
\<close>

partial_function (option) ToggleSwitch ::
    "bool \<Rightarrow> string \<Rightarrow> MarsHydroAPI \<Rightarrow> world
      \<Rightarrow> ((error + (string \<times> json) list) \<times> MarsHydroAPI \<times> world) option" where
  "ToggleSwitch isClose deviceID api w =
     (case ensureToken api w of
        (Some e, api1, w1) \<Rightarrow> Some (Inl e, api1, w1)
      | (None, api1, w1) \<Rightarrow>
          (case http_post ''/udm/lampSwitch/v1'' api1 (SwitchBody isClose deviceID) w1 of
             (ConnFail, w2) \<Rightarrow> Some (Inl ErrTransport, api1, w2)
           | (Undecodable, w2) \<Rightarrow> Some (Inl ErrDecode, api1, w2)
           | (Decoded resData, w2) \<Rightarrow>
               if as_string (map_of resData ''code'') = Some ''102''
               then (case Login api1 w2 of
                       (Some e, api3, w3) \<Rightarrow> Some (Inl e, api3, w3)
                     | (None, api3, w3) \<Rightarrow> ToggleSwitch isClose deviceID api3 w3)
               else Some (Inr resData, api1, w2)))"

declare ToggleSwitch.simps [code]

text \<open>
  \<open>fmt.Sprintf("%.0f", v)\<close>: the decimal digits of \<open>v\<close> rounded to an integer, ties to
  even, after the sign of \<open>v\<close>.
\<close>

definition digit :: "int \<Rightarrow> char" where
  "digit d = ''0123456789'' ! nat d"

function dec :: "int \<Rightarrow> string" where
  "dec n = (if n < 10 then [digit n] else dec (n div 10) @ [digit (n mod 10)])"
  by pat_completeness auto
termination
  by (relation "measure nat") auto

declare dec.simps [simp del]

definition fmt_f0 :: "rat \<Rightarrow> string" where
  "fmt_f0 v = (if v < 0 then CHR ''-'' # dec (rne (- v)) else dec (rne v))"

text \<open>
  The type switches of \<open>GetLightData\<close> on a field of the first device: the value that the
  session field has afterwards, given the one it had.
\<close>

fun assign_id :: "json option \<Rightarrow> string \<Rightarrow> string" where
  "assign_id (Some (JStr v)) cur = (if v \<noteq> '''' then v else cur)"
| "assign_id (Some (JNum v)) cur = fmt_f0 v"
| "assign_id _ cur = cur"

fun assign_group :: "json option \<Rightarrow> string \<Rightarrow> string" where
  "assign_group None cur = ''''"
| "assign_group (Some (JStr v)) cur = v"
| "assign_group (Some (JNum v)) cur = fmt_f0 v"
| "assign_group (Some _) cur = cur"

definition field :: "(string \<times> json) list \<Rightarrow> string \<Rightarrow> json" where
  "field obj k = (case map_of obj k of None \<Rightarrow> JNull | Some v \<Rightarrow> v)"

definition GetLightData ::
    "MarsHydroAPI \<Rightarrow> world \<Rightarrow> (error + (string \<times> json) list) \<times> MarsHydroAPI \<times> world" where
  "GetLightData api w =
     (case ensureToken api w of
        (Some e, api1, w1) \<Rightarrow> (Inl e, api1, w1)
      | (None, api1, w1) \<Rightarrow>
          (case http_post ''/udm/getDeviceList/v1'' api1 ListBody w1 of
             (ConnFail, w2) \<Rightarrow> (Inl ErrTransport, api1, w2)
           | (Undecodable, w2) \<Rightarrow> (Inl ErrDecode, api1, w2)
           | (Decoded resData, w2) \<Rightarrow>
               if as_string (map_of resData ''code'') \<noteq> Some ''000''
               then (Inl ErrRetrievingDevices, api1, w2)
               else
                 (case as_array (case as_object (map_of resData ''data'') of
                                   None \<Rightarrow> None
                                 | Some d \<Rightarrow> map_of d ''list'') of
                    None \<Rightarrow> (Inl ErrNoLightDevices, api1, w2)
                  | Some [] \<Rightarrow> (Inl ErrNoLightDevices, api1, w2)
                  | Some (first # _) \<Rightarrow>
                      (case as_object (Some first) of
                         None \<Rightarrow> (Inl ErrInvalidDeviceData, api1, w2)
                       | Some deviceData \<Rightarrow>
                           let api2 = api1\<lparr>DeviceID :=
                                 assign_id (map_of deviceData ''id'') (DeviceID api1)\<rparr>;
                               api3 = (if DeviceID api2 = ''''
                                 then api2\<lparr>DeviceID :=
                                   assign_id (map_of deviceData ''deviceId'') (DeviceID api2)\<rparr>
                                 else api2)
                           in if DeviceID api3 = '''' then (Inl ErrDeviceIdNotFound, api3, w2)
                              else
                                let api4 = api3\<lparr>GroupID :=
                                      assign_group (map_of deviceData ''groupId'') (GroupID api3)\<rparr>
                                in (Inr [(''deviceName'', field deviceData ''deviceName''),
                                         (''deviceLightRate'', field deviceData ''deviceLightRate''),
                                         (''isClose'', field deviceData ''isClose''),
                                         (''id'', JStr (DeviceID api4)),
                                         (''deviceImage'', field deviceData ''deviceImg''),
                                         (''groupId'', JStr (GroupID api4))],
                                    api4, w2)))))"

definition SetBrightness ::
    "int \<Rightarrow> MarsHydroAPI \<Rightarrow> world \<Rightarrow> error option \<times> MarsHydroAPI \<times> world" where
  "SetBrightness brightness api w =
     (case (if DeviceID api = ''''
            then (case GetLightData api w of
                    (Inl e, api', w') \<Rightarrow> (Some e, api', w')
                  | (Inr _, api', w') \<Rightarrow> (None, api', w'))
            else (None, api, w)) of
        (Some e, api1, w1) \<Rightarrow> (Some e, api1, w1)
      | (None, api1, w1) \<Rightarrow>
          (case ensureToken api1 w1 of
             (Some e, api2, w2) \<Rightarrow> (Some e, api2, w2)
           | (None, api2, w2) \<Rightarrow>
               (case http_post ''/udm/adjustLight/v1'' api2
                       (LightBody brightness (DeviceID api2) (GroupID api2)) w2 of
                  (ConnFail, w3) \<Rightarrow> (None, api2, w3)
                | (Undecodable, w3) \<Rightarrow> (Some ErrDecode, api2, w3)
                | (Decoded resData, w3) \<Rightarrow>
                    if as_string (map_of resData ''code'') \<noteq> Some ''000''
                    then (Some ErrReceivedErrorResponse, api2, w3)
                    else (None, api2, w3))))"

section \<open>The reconciliation loop (main.go)\<close>

record MHAccountConfig =
  cfg_Email :: string
  cfg_Password :: string
  cfg_Wifiname :: string
  cfg_Timezone :: string
  cfg_Language :: string

text \<open>
  The closure \<open>updateState\<close>. What it captures and changes is the variable
  \<open>lastBrightness\<close>, which is \<open>-1\<close> while no brightness is known to be applied; the
  state that outlives a call is that variable and the world.
\<close>

definition updateState :: "MHAccountConfig \<Rightarrow> int \<Rightarrow> int \<times> world \<Rightarrow> int \<times> world" where
  "updateState mhAccount state = (\<lambda>(lastBrightness, w).
     if lastBrightness \<noteq> - 1 \<and> state = lastBrightness then (lastBrightness, w)
     else
       let mhapi = NewMarsHydroAPI (cfg_Email mhAccount) (cfg_Password mhAccount)
                     (cfg_Wifiname mhAccount) (cfg_Timezone mhAccount) (cfg_Language mhAccount)
       in (case Login mhapi w of
             (Some e, mhapi1, w1) \<Rightarrow> (lastBrightness, w1)
           | (None, mhapi1, w1) \<Rightarrow>
               (case SetBrightness state mhapi1 w1 of
                  (Some e, mhapi2, w2) \<Rightarrow> (lastBrightness, w2)
                | (None, mhapi2, w2) \<Rightarrow> (state, w2))))"

text \<open>
  The calls of \<open>updateState\<close> that \<open>main\<close> makes, one at startup and one for each tick,
  for the expected brightness of each.
\<close>

definition ticks :: "MHAccountConfig \<Rightarrow> int list \<Rightarrow> int \<times> world \<Rightarrow> int \<times> world" where
  "ticks mhAccount states = fold (updateState mhAccount) states"

text \<open>
  The sequence that \<open>updateState\<close> runs to apply a brightness: a new session, \<open>Login\<close>,
  \<open>SetBrightness\<close>.
\<close>

definition apply_attempt :: "MHAccountConfig \<Rightarrow> int \<Rightarrow> world \<Rightarrow> error option \<times> world" where
  "apply_attempt mhAccount state w =
     (case Login (NewMarsHydroAPI (cfg_Email mhAccount) (cfg_Password mhAccount)
                    (cfg_Wifiname mhAccount) (cfg_Timezone mhAccount) (cfg_Language mhAccount)) w of
        (Some e, mhapi1, w1) \<Rightarrow> (Some e, w1)
      | (None, mhapi1, w1) \<Rightarrow>
          (case SetBrightness state mhapi1 w1 of (r, mhapi2, w2) \<Rightarrow> (r, w2)))"

text \<open>Configurations and clock readings for the examples below.\<close>

definition at_clock :: "int \<Rightarrow> int \<Rightarrow> int \<Rightarrow> clock" where
  "at_clock h m s = \<lparr>Hour = h, Minute = m, Second = s\<rparr>"

definition timer_with :: "int \<Rightarrow> int \<Rightarrow> int \<Rightarrow> LightTimer" where
  "timer_with plateau offset maxBrightness =
     \<lparr>StartHour = 8, PlateauHour = plateau, EndHour = 20, StepSize = 10,
      PlateauOffset = offset, Brightness = maxBrightness\<rparr>"

text \<open>A step size and a maximum beyond the integers that \<open>float64\<close> holds exactly.\<close>

definition huge_timer :: LightTimer where
  "huge_timer =
     \<lparr>StartHour = 8, PlateauHour = 6, EndHour = 20, StepSize = 9007199254741005,
      PlateauOffset = - 1, Brightness = 9007199254741005\<rparr>"

text \<open>An account, server replies, a world and a session for the examples below.\<close>

definition acct0 :: MHAccountConfig where
  "acct0 = \<lparr>cfg_Email = ''grower@example.org'', cfg_Password = ''secret'',
     cfg_Wifiname = ''wifi'', cfg_Timezone = ''Europe/Berlin'', cfg_Language = ''German''\<rparr>"

definition login_ok :: "string \<Rightarrow> reply" where
  "login_ok t = Decoded [(''code'', JStr ''000''), (''data'', JObj [(''token'', JStr t)])]"

definition list_ok :: reply where
  "list_ok = Decoded [(''code'', JStr ''000''),
     (''data'', JObj [(''list'', JArr [JObj [(''id'', JNum 4711), (''deviceName'', JStr ''lamp'')]])])]"

definition cmd_ok :: reply where
  "cmd_ok = Decoded [(''code'', JStr ''000''), (''msg'', JStr ''success'')]"

definition cmd_expired :: reply where
  "cmd_expired = Decoded [(''code'', JStr ''102''), (''msg'', JStr ''token expired'')]"

text \<open>
  The world in which the server gives the replies \<open>rs\<close> in turn and no connection
  succeeds after them; the clock starts at \<open>t0\<close> and every request takes a millisecond.
\<close>

definition world_of :: "int \<Rightarrow> reply list \<Rightarrow> world" where
  "world_of t0 rs =
     \<lparr>net = (\<lambda>n. if n < length rs then rs ! n else ConnFail), sent = [],
      wall = (\<lambda>n. t0 + 1000000 * int n)\<rparr>"

text \<open>A session that logged in at time \<open>1700000000\<close> s and knows its device.\<close>

definition session1 :: MarsHydroAPI where
  "session1 = (NewMarsHydroAPI ''grower@example.org'' ''secret'' ''wifi'' ''Europe/Berlin'' ''German'')
     \<lparr>Token := ''T1'', LastLoginTime := 1700000000000000000, DeviceID := ''4711''\<rparr>"

text \<open>The requests of the four endpoints, as a session \<open>api\<close> sends them.\<close>

definition login_request :: "MarsHydroAPI \<Rightarrow> request" where
  "login_request api =
     Request (BaseURL api @ ''/ulogin/mailLogin/v1'') (Token api) (DeviceID api)
       (LoginBody (Email api) (Password api))"


definition light_request :: "MarsHydroAPI \<Rightarrow> int \<Rightarrow> request" where
  "light_request api brightness =
     Request (BaseURL api @ ''/udm/adjustLight/v1'') (Token api) (DeviceID api)
       (LightBody brightness (DeviceID api) (GroupID api))"


text \<open>\<open>Login\<close> finds the cached token fresh and skips the request.\<close>

definition token_fresh :: "MarsHydroAPI \<Rightarrow> world \<Rightarrow> bool" where
  "token_fresh api w \<longleftrightarrow>
     Token api \<noteq> '''' \<and> time_Since w (LastLoginTime api) < LoginInterval api"



text \<open>
  A world whose server reports an expired token twice and then success, with a clock that
  stands still; and a world in which five minutes and a second have passed since
  \<open>session1\<close> logged in.
\<close>

definition calm :: world where
  "calm = \<lparr>net = (\<lambda>n. if n < 2 then cmd_expired else cmd_ok), sent = [],
            wall = (\<lambda>n. 1700000000000000000)\<rparr>"

definition late :: world where
  "late = world_of 1700000301000000000 [login_ok ''T2'']"

definition new_session0 :: MarsHydroAPI where
  "new_session0 = NewMarsHydroAPI (cfg_Email acct0) (cfg_Password acct0) (cfg_Wifiname acct0)
     (cfg_Timezone acct0) (cfg_Language acct0)"

definition two_ticks :: world where
  "two_ticks = world_of 1700000000000000000
     [login_ok ''T1'', list_ok, cmd_ok, login_ok ''T2'', list_ok, cmd_ok]"

text \<open>
  A world in which the login and the device list succeed and the connection fails from
  the third request on.
\<close>

definition broken_line :: world where
  "broken_line = world_of 1700000000000000000 [login_ok ''T1'', list_ok]"


section \<open>Properties of the machine arithmetic\<close>

lemma wrap64_id: "- (2 ^ 63) \<le> x \<Longrightarrow> x < 2 ^ 63 \<Longrightarrow> wrap64 x = x"
  by (simp add: wrap64_def)

lemma rne_of_int: "rne (of_int n) = n"
  by (simp add: rne_def)

lemma rne_lower: "of_int (rne x) \<ge> x - 1 / 2"
  unfolding rne_def Let_def by (auto; linarith)

lemma rne_upper: "of_int (rne x) \<le> x + 1 / 2"
  unfolding rne_def Let_def by (auto; linarith)

lemma rne_range: "\<lfloor>x\<rfloor> \<le> rne x \<and> rne x \<le> \<lfloor>x\<rfloor> + 1"
  unfolding rne_def Let_def by auto

lemma rne_mono:
  assumes "x \<le> y"
  shows "rne x \<le> rne y"
proof (cases "\<lfloor>x\<rfloor> = \<lfloor>y\<rfloor>")
  case True
  have "x - of_int \<lfloor>x\<rfloor> \<le> y - of_int \<lfloor>y\<rfloor>" using assms True by simp
  then show ?thesis unfolding rne_def Let_def True by auto
next
  case False
  then have "\<lfloor>x\<rfloor> + 1 \<le> \<lfloor>y\<rfloor>" using floor_mono[OF assms] by linarith
  then show ?thesis using rne_range[of x] rne_range[of y] by linarith
qed

lemma rne_minus: "rne (- x) = - rne x"
proof (cases "x = of_int \<lfloor>x\<rfloor>")
  case True
  then obtain n where "x = of_int n" ..
  then have "- x = of_int (- n)" by simp
  then show ?thesis using \<open>x = of_int n\<close> by (simp only: rne_of_int)
next
  case False
  then have f: "\<lfloor>- x\<rfloor> = - \<lfloor>x\<rfloor> - 1"
    by (metis ceiling_altdef ceiling_def add_diff_cancel minus_diff_eq uminus_add_conv_diff)
  show ?thesis unfolding rne_def Let_def f by (auto; linarith)
qed


lemma expo_ge1:
  fixes x :: rat
  assumes "1 \<le> x"
  shows "2 powi (expo x) \<le> x" and "x < 2 powi (expo x + 1)"
proof -
  let ?n = "\<lfloor>x\<rfloor>"
  have n: "0 < ?n" using assms by simp
  have b1: "1 \<le> bitlen ?n" using n bitlen_eq_zero_iff[of ?n] bitlen_nonneg[of ?n] by linarith
  have e: "expo x = bitlen ?n - 1" using assms by (simp add: expo_def)
  from bitlen_bounds[OF n] have lo: "2 ^ nat (bitlen ?n - 1) \<le> ?n" and hi: "?n < 2 ^ nat (bitlen ?n)"
    by auto
  have "(2::rat) powi (expo x) = of_int (2 ^ nat (bitlen ?n - 1))"
    using b1 by (simp add: e power_int_def)
  also have "\<dots> \<le> of_int ?n" using lo by (simp only: of_int_le_iff)
  also have "\<dots> \<le> x" by simp
  finally show "2 powi (expo x) \<le> x" .
  have "?n + 1 \<le> 2 ^ nat (bitlen ?n)" using hi by simp
  then have "(of_int (?n + 1) :: rat) \<le> of_int (2 ^ nat (bitlen ?n))" by (simp only: of_int_le_iff)
  moreover have "x < of_int (?n + 1)" by linarith
  ultimately have "x < of_int (2 ^ nat (bitlen ?n))" by linarith
  also have "\<dots> = 2 powi (expo x + 1)" using b1 by (simp add: e power_int_def)
  finally show "x < 2 powi (expo x + 1)" .
qed

lemma expo_lt1:
  fixes x :: rat
  assumes "0 < x" "x < 1"
  shows "2 powi (expo x) \<le> x" and "x < 2 powi (expo x + 1)"
proof -
  define m where "m = \<lceil>1 / x\<rceil> - 1"
  define b where "b = nat (bitlen m - 1)"
  have y: "1 < 1 / x" using assms by simp
  have m: "0 < m" unfolding m_def using y by linarith
  have b1: "1 \<le> bitlen m" using m bitlen_eq_zero_iff[of m] bitlen_nonneg[of m] by linarith
  have bl: "bitlen m = int b + 1" "nat (bitlen m) = Suc b" using b1 by (simp_all add: b_def)
  have "expo x = - bitlen m" using assms by (simp add: expo_def m_def)
  then have e: "expo x = - (int b + 1)" by (simp only: bl)
  from bitlen_bounds[OF m] have "2 ^ b \<le> m \<and> m < 2 ^ Suc b"
    unfolding bl(2) b_def[symmetric] .
  then have lo: "2 ^ b \<le> m" and hi: "m < 2 ^ Suc b" by blast+
  have ym: "of_int m < 1 / x" "1 / x \<le> of_int m + 1" unfolding m_def by linarith+
  have "m + 1 \<le> 2 ^ Suc b" using hi by simp
  then have "(of_int (m + 1) :: rat) \<le> of_int (2 ^ Suc b)" by (simp only: of_int_le_iff)
  then have "1 / x \<le> 2 ^ Suc b" using ym by simp
  then have "1 \<le> 2 ^ Suc b * x" using assms(1) by (simp add: field_simps)
  then have "1 / 2 ^ Suc b \<le> x" by (simp add: field_simps)
  moreover have "(2::rat) powi (expo x) = 1 / 2 ^ Suc b"
  proof -
    have "expo x = - int (Suc b)" by (simp add: e)
    then have "(2::rat) powi (expo x) = inverse (2 powi (int (Suc b)))"
      by (simp only: power_int_minus)
    also have "\<dots> = 1 / 2 ^ Suc b" by (simp only: power_int_of_nat inverse_eq_divide)
    finally show ?thesis .
  qed
  ultimately show "2 powi (expo x) \<le> x" by simp
  have "(of_int (2 ^ b) :: rat) \<le> of_int m" using lo by (simp only: of_int_le_iff)
  then have "(2::rat) ^ b \<le> of_int m" by simp
  then have "2 ^ b < 1 / x" using ym(1) by linarith
  then have "2 ^ b * x < 1" using assms(1) by (simp add: field_simps)
  then have "x < 1 / 2 ^ b" by (simp add: field_simps)
  moreover have "(2::rat) powi (expo x + 1) = 1 / 2 ^ b"
  proof -
    have "expo x + 1 = - int b" by (simp add: e)
    then have "(2::rat) powi (expo x + 1) = inverse (2 powi (int b))"
      by (simp only: power_int_minus)
    also have "\<dots> = 1 / 2 ^ b" by (simp add: field_simps)
    finally show ?thesis .
  qed
  ultimately show "x < 2 powi (expo x + 1)" by simp
qed

lemma expo_bounds:
  fixes x :: rat
  assumes "0 < x"
  shows "2 powi (expo x) \<le> x" and "x < 2 powi (expo x + 1)"
  using assms expo_ge1[of x] expo_lt1[of x] by (cases "1 \<le> x"; simp)+

lemma expo_mono:
  fixes x y :: rat
  assumes "0 < x" "x \<le> y"
  shows "expo x \<le> expo y"
proof (rule ccontr)
  assume "\<not> expo x \<le> expo y"
  then have "expo y + 1 \<le> expo x" by simp
  then have "(2::rat) powi (expo y + 1) \<le> 2 powi (expo x)"
    by (intro power_int_increasing) simp_all
  moreover have "y < 2 powi (expo y + 1)" using assms by (intro expo_bounds) simp
  moreover have "2 powi (expo x) \<le> x" using assms by (intro expo_bounds)
  ultimately show False using assms(2) by linarith
qed

lemma fl_zero: "fl 0 = 0"
  by (simp add: fl_def)

lemma fl_minus: "fl (- x) = - fl x"
  by (simp add: fl_def Let_def rne_minus)

lemma ulp_split: "(2::rat) powi (e + int k) = 2 powi e * 2 ^ k"
proof -
  have "(2::rat) powi (e + int k) = 2 powi e * 2 powi (int k)" by (rule power_int_add) simp
  then show ?thesis by (simp only: power_int_of_nat)
qed

lemma fl_pos_bounds:
  assumes "0 < x"
  shows "2 powi (expo x) \<le> fl x" and "fl x \<le> 2 powi (expo x + 1)"
proof -
  define u :: rat where "u = 2 powi (expo x - 52)"
  have u: "0 < u" by (simp add: u_def)
  have f: "fl x = of_int (rne (x / u)) * u" using assms by (simp add: fl_def u_def Let_def)
  have lo: "2 powi (expo x) = u * 2 ^ 52"
    using ulp_split[of "expo x - 52" 52] by (simp add: u_def)
  have "expo x + 1 = expo x - 52 + int 53" by simp
  then have "(2::rat) powi (expo x + 1) = 2 powi (expo x - 52 + int 53)" by (rule arg_cong)
  then have hi: "2 powi (expo x + 1) = u * 2 ^ 53"
    by (simp only: ulp_split u_def)
  have "u * 2 ^ 52 \<le> x" using expo_bounds(1)[OF assms] lo by simp
  then have "of_int (2 ^ 52) \<le> x / u" using u by (simp add: field_simps)
  from rne_mono[OF this] have "2 ^ 52 \<le> rne (x / u)" by (simp only: rne_of_int)
  then have "(of_int (2 ^ 52) :: rat) \<le> of_int (rne (x / u))" by (simp only: of_int_le_iff)
  then have "2 ^ 52 * u \<le> of_int (rne (x / u)) * u" using u by simp
  then show "2 powi (expo x) \<le> fl x" by (simp add: f lo mult.commute)
  have "x < u * 2 ^ 53" using expo_bounds(2)[OF assms] hi by simp
  then have "x / u \<le> of_int (2 ^ 53)" using u by (simp add: field_simps)
  from rne_mono[OF this] have "rne (x / u) \<le> 2 ^ 53" by (simp only: rne_of_int)
  then have "(of_int (rne (x / u)) :: rat) \<le> of_int (2 ^ 53)" by (simp only: of_int_le_iff)
  then have "of_int (rne (x / u)) * u \<le> 2 ^ 53 * u" using u by simp
  then show "fl x \<le> 2 powi (expo x + 1)" by (simp add: f hi mult.commute)
qed

lemma fl_pos:
  assumes "0 < x"
  shows "0 < fl x"
proof -
  have "0 < (2::rat) powi (expo x)" by simp
  then show ?thesis using fl_pos_bounds(1)[OF assms] by linarith
qed

lemma fl_mono_pos:
  assumes "0 < x" "x \<le> y"
  shows "fl x \<le> fl y"
proof (cases "expo x = expo y")
  case True
  define u :: rat where "u = 2 powi (expo x - 52)"
  have u: "0 < u" by (simp add: u_def)
  have "x / u \<le> y / u" using assms u by (simp add: divide_right_mono)
  from rne_mono[OF this] have "(of_int (rne (x / u)) :: rat) \<le> of_int (rne (y / u))"
    by (simp only: of_int_le_iff)
  then have "of_int (rne (x / u)) * u \<le> of_int (rne (y / u)) * u" using u by simp
  then show ?thesis using assms True by (simp add: fl_def u_def Let_def)
next
  case False
  then have "expo x + 1 \<le> expo y" using expo_mono[OF assms] by simp
  then have "(2::rat) powi (expo x + 1) \<le> 2 powi (expo y)"
    by (intro power_int_increasing) simp_all
  moreover have "fl x \<le> 2 powi (expo x + 1)" using assms by (intro fl_pos_bounds)
  moreover have "2 powi (expo y) \<le> fl y" using assms by (intro fl_pos_bounds) simp
  ultimately show ?thesis by linarith
qed

lemma fl_mono:
  assumes "x \<le> y"
  shows "fl x \<le> fl y"
proof -
  consider "0 < x" | "x \<le> 0" "0 \<le> y" | "y < 0" by linarith
  then show ?thesis
  proof cases
    case 1
    then show ?thesis using assms by (rule fl_mono_pos)
  next
    case 2
    have "fl x \<le> 0"
      using fl_pos[of "- x"] 2(1) by (cases "x = 0") (simp_all add: fl_zero fl_minus)
    moreover have "0 \<le> fl y"
      using fl_pos[of y] 2(2) by (cases "y = 0") (simp_all add: fl_zero)
    ultimately show ?thesis by simp
  next
    case 3
    then have "fl (- y) \<le> fl (- x)" using assms by (intro fl_mono_pos) simp_all
    then show ?thesis by (simp add: fl_minus)
  qed
qed

lemma fl_exact:
  assumes "x / 2 powi (expo \<bar>x\<bar> - 52) = of_int m"
  shows "fl x = x"
proof (cases "x = 0")
  case True
  then show ?thesis by (simp add: fl_zero)
next
  case False
  define u :: rat where "u = 2 powi (expo \<bar>x\<bar> - 52)"
  have u: "0 < u" by (simp add: u_def)
  have "fl x = of_int (rne (x / u)) * u" using False by (simp add: fl_def u_def Let_def)
  also have "\<dots> = x / u * u" using assms by (simp only: u_def[symmetric] rne_of_int)
  also have "\<dots> = x" using u by simp
  finally show ?thesis .
qed

lemma fl_of_pos_int:
  assumes "0 < n" "n \<le> 2 ^ 53"
  shows "fl (of_int n) = of_int n"
proof -
  define x :: rat where "x = of_int n"
  have x: "0 < x" "x \<le> 2 ^ 53" using assms by (simp_all add: x_def)
  have ax: "\<bar>x\<bar> = x" using x by simp
  have lo: "2 powi (expo x) \<le> x" using x by (intro expo_bounds)
  have e: "expo x \<le> 53"
  proof (rule ccontr)
    assume "\<not> expo x \<le> 53"
    then have "54 \<le> expo x" by simp
    then have "(2::rat) powi 54 \<le> 2 powi (expo x)" by (intro power_int_increasing) simp_all
    then show False using lo x(2) by simp
  qed
  have "\<exists>m. x / 2 powi (expo x - 52) = of_int m"
  proof (cases "expo x \<le> 52")
    case True
    define k where "k = nat (52 - expo x)"
    have "expo x - 52 = - int k" using True by (simp add: k_def)
    then have "(2::rat) powi (expo x - 52) = inverse (2 powi (int k))"
      by (simp only: power_int_minus)
    then have "x / 2 powi (expo x - 52) = x * 2 ^ k" by (simp add: field_simps)
    also have "\<dots> = of_int (n * 2 ^ k)" by (simp add: x_def)
    finally show ?thesis by blast
  next
    case False
    then have e53: "expo x = 53" using e by simp
    then have "x = 2 ^ 53" using lo x(2) by simp
    moreover have "2 powi (expo x - 52) = (2::rat)" by (simp add: e53)
    ultimately have "x / 2 powi (expo x - 52) = of_int (2 ^ 52)" by simp
    then show ?thesis by blast
  qed
  then obtain m where "x / 2 powi (expo \<bar>x\<bar> - 52) = of_int m" unfolding ax by blast
  then have "fl x = x" by (rule fl_exact)
  then show ?thesis by (simp only: x_def)
qed

lemma fl_of_int:
  assumes "\<bar>n\<bar> \<le> 2 ^ 53"
  shows "fl (of_int n) = of_int n"
proof -
  consider "0 < n" | "n = 0" | "n < 0" by linarith
  then show ?thesis
  proof cases
    case 1
    then show ?thesis using assms by (intro fl_of_pos_int) simp_all
  next
    case 2
    then show ?thesis by (simp add: fl_zero)
  next
    case 3
    then have "fl (of_int (- n)) = of_int (- n)" using assms by (intro fl_of_pos_int) simp_all
    then show ?thesis by (simp add: fl_minus)
  qed
qed

lemma math_Round_ge: "of_int m \<le> x \<Longrightarrow> m \<le> math_Round x"
  unfolding math_Round_def by (auto; linarith)

lemma math_Round_le: "x \<le> of_int m \<Longrightarrow> math_Round x \<le> m"
  unfolding math_Round_def by (auto; linarith)

lemma math_Round_mono: "x \<le> y \<Longrightarrow> math_Round x \<le> math_Round y"
  unfolding math_Round_def by (auto; linarith)

lemma fl_int_le: "x \<le> of_int m \<Longrightarrow> \<bar>m\<bar> \<le> 2 ^ 53 \<Longrightarrow> fl x \<le> of_int m"
  using fl_mono[of x "of_int m"] fl_of_int[of m] by simp

lemma fl_int_ge: "of_int m \<le> x \<Longrightarrow> \<bar>m\<bar> \<le> 2 ^ 53 \<Longrightarrow> of_int m \<le> fl x"
  using fl_mono[of "of_int m" x] fl_of_int[of m] by simp

lemma raw_between:
  assumes S: "\<bar>S\<bar> < 2 ^ 31" and B: "\<bar>B\<bar> < 2 ^ 31" and f: "0 \<le> f" "f \<le> 1"
  shows "of_int (min S B) \<le> raw fused S B f" and "raw fused S B f \<le> of_int (max S B)"
proof -
  define d where "d = B - S"
  have d: "\<bar>d\<bar> \<le> 2 ^ 53" "\<bar>min 0 d\<bar> \<le> 2 ^ 53" "\<bar>max 0 d\<bar> \<le> 2 ^ 53"
    using S B by (simp_all add: d_def)
  have mm: "\<bar>min S B\<bar> \<le> 2 ^ 53" "\<bar>max S B\<bar> \<le> 2 ^ 53" using S B by simp_all
  have p: "of_int (min 0 d) \<le> f * of_int d" "f * of_int d \<le> of_int (max 0 d)"
  proof -
    show "of_int (min 0 d) \<le> f * of_int d"
    proof (cases "0 \<le> d")
      case True
      then show ?thesis using f by simp
    next
      case False
      then have "f * of_int d \<ge> 1 * of_int d"
        using f by (intro mult_right_mono_neg) simp_all
      then show ?thesis using False by simp
    qed
    show "f * of_int d \<le> of_int (max 0 d)"
    proof (cases "0 \<le> d")
      case True
      then have "f * of_int d \<le> 1 * of_int d" using f by (intro mult_right_mono) simp_all
      then show ?thesis using True by simp
    next
      case False
      then have "f * of_int d \<le> 0" using f by (simp add: mult_nonneg_nonpos)
      then show ?thesis using False by simp
    qed
  qed
  have q: "of_int (min 0 d) \<le> fl (f * of_int d)" "fl (f * of_int d) \<le> of_int (max 0 d)"
    using p d by (simp_all only: fl_int_ge fl_int_le)
  have s1: "of_int S + of_int (min 0 d) = (of_int (min S B) :: rat)"
    and s2: "of_int S + of_int (max 0 d) = (of_int (max S B) :: rat)"
    by (simp_all add: d_def min_def max_def)
  have "of_int (min S B) \<le> of_int S + f * of_int d" using p(1) s1 by linarith
  then have a1: "of_int (min S B) \<le> fl (of_int S + f * of_int d)" using mm(1) by (rule fl_int_ge)
  have "of_int (min S B) \<le> of_int S + fl (f * of_int d)" using q(1) s1 by linarith
  then have a2: "of_int (min S B) \<le> fl (of_int S + fl (f * of_int d))"
    using mm(1) by (rule fl_int_ge)
  have "of_int S + f * of_int d \<le> of_int (max S B)" using p(2) s2 by linarith
  then have b1: "fl (of_int S + f * of_int d) \<le> of_int (max S B)" using mm(2) by (rule fl_int_le)
  have "of_int S + fl (f * of_int d) \<le> of_int (max S B)" using q(2) s2 by linarith
  then have b2: "fl (of_int S + fl (f * of_int d)) \<le> of_int (max S B)"
    using mm(2) by (rule fl_int_le)
  show "of_int (min S B) \<le> raw fused S B f" using a1 a2 by (simp add: raw_def d_def)
  show "raw fused S B f \<le> of_int (max S B)" using b1 b2 by (simp add: raw_def d_def)
qed

lemma raw_mono:
  assumes "S \<le> B" "f \<le> g"
  shows "raw fused S B f \<le> raw fused S B g"
proof -
  have "f * of_int (B - S) \<le> g * of_int (B - S)"
    using assms by (intro mult_right_mono) simp_all
  then show ?thesis unfolding raw_def by (auto intro!: fl_mono add_left_mono)
qed

lemma steps_mono:
  assumes "0 < S" "S \<le> B" "f \<le> g"
  shows "steps fused S B f \<le> steps fused S B g"
  unfolding steps_def
  using assms raw_mono[of S B f g fused]
  by (intro math_Round_mono fl_mono divide_right_mono) simp_all

lemma steps_bounds:
  assumes S: "0 < S" "S < 2 ^ 31" and B: "0 < B" "B < 2 ^ 31" and f: "0 \<le> f" "f \<le> 1"
  shows "0 \<le> steps fused S B f" and "steps fused S B f \<le> B div S + 1"
    and "S \<le> B \<Longrightarrow> 1 \<le> steps fused S B f"
proof -
  define r where "r = raw fused S B f"
  have r: "of_int (min S B) \<le> r" "r \<le> of_int (max S B)"
    unfolding r_def using S B f by (intro raw_between; simp)+
  have sp: "(0::rat) < of_int S" using S by simp
  have "0 \<le> r" using r(1) S B by (simp add: min_def split: if_splits)
  then have "of_int 0 \<le> r / of_int S" using sp by simp
  then have "of_int 0 \<le> fl (r / of_int S)" by (rule fl_int_ge) simp
  then show "0 \<le> steps fused S B f" unfolding steps_def r_def by (rule math_Round_ge)
  define q where "q = B div S"
  define m where "m = B mod S"
  have dm: "B = q * S + m" by (simp add: q_def m_def)
  have m: "0 \<le> m" "m < S" using S by (simp_all add: m_def)
  have d0: "0 \<le> q" using S B by (simp add: q_def pos_imp_zdiv_nonneg_iff)
  have "q * 1 \<le> q * S" using d0 S by (intro mult_left_mono) simp_all
  moreover have "q * S \<le> B" using dm m by linarith
  ultimately have dB: "q \<le> B" by simp
  have "B \<le> (q + 1) * S" using dm m by (simp add: algebra_simps)
  moreover have "S \<le> (q + 1) * S" using d0 S by (simp add: algebra_simps)
  ultimately have "max S B \<le> (q + 1) * S" by simp
  then have "(of_int (max S B) :: rat) \<le> of_int ((q + 1) * S)" by (simp only: of_int_le_iff)
  then have "r \<le> of_int (q + 1) * of_int S" using r(2) by simp
  then have "r / of_int S \<le> of_int (q + 1)" using sp by (simp add: field_simps)
  moreover have "\<bar>q + 1\<bar> \<le> 2 ^ 53" using d0 dB B by simp
  ultimately have "fl (r / of_int S) \<le> of_int (q + 1)" by (rule fl_int_le)
  then show "steps fused S B f \<le> B div S + 1"
    unfolding steps_def r_def q_def by (rule math_Round_le)
  assume "S \<le> B"
  then have "of_int S \<le> r" using r(1) by simp
  then have "of_int 1 \<le> r / of_int S" using sp by (simp add: field_simps)
  then have "of_int 1 \<le> fl (r / of_int S)" by (rule fl_int_ge) simp
  then show "1 \<le> steps fused S B f" unfolding steps_def r_def by (rule math_Round_ge)
qed

section \<open>The schedule when nothing wraps\<close>

lemma f64_of_int_exact: "\<bar>n\<bar> \<le> 2 ^ 53 \<Longrightarrow> f64_of_int n = of_int n"
  unfolding f64_of_int_def by (rule fl_of_int)

lemma int_of_f64_of_int:
  "- (2 ^ 63) \<le> n \<Longrightarrow> n < 2 ^ 63 \<Longrightarrow> int_of_f64 (of_int n) = Inr n"
proof -
  assume a: "- (2 ^ 63) \<le> n" "n < 2 ^ 63"
  have "(of_int (- (2 ^ 63)) :: rat) \<le> of_int n" "(of_int n :: rat) < of_int (2 ^ 63)"
    using a by (simp_all only: of_int_le_iff of_int_less_iff)
  then show ?thesis by (simp add: int_of_f64_def)
qed

lemma fits32D:
  assumes "fits32 lt"
  shows "\<bar>StartHour lt\<bar> \<le> 2 ^ 31" "\<bar>PlateauHour lt\<bar> \<le> 2 ^ 31" "\<bar>EndHour lt\<bar> \<le> 2 ^ 31"
    "\<bar>StepSize lt\<bar> \<le> 2 ^ 31" "\<bar>PlateauOffset lt\<bar> \<le> 2 ^ 31" "\<bar>Brightness lt\<bar> \<le> 2 ^ 31"
    "StepSize lt < 2 ^ 31" "Brightness lt < 2 ^ 31"
  using assms unfolding fits32_def by auto

lemma secs_int:
  assumes "fits32 lt"
  shows "startSec_of lt = StartHour lt * 3600"
    and "endSec_of lt = EndHour lt * 3600"
    and "plateauSec_of lt = PlateauHour lt * 3600"
  using fits32D(1-3)[OF assms]
  by (simp_all add: startSec_of_def endSec_of_def plateauSec_of_def wrap64_id)

lemma ramps_int:
  assumes "fits32 lt"
  shows "sunriseRamp lt = of_int (sunriseSecs lt)"
    and "sunsetRamp lt = of_int (sunsetSecs lt)"
proof -
  note b = fits32D(1-3,5)[OF assms]
  define w where "w = EndHour lt - StartHour lt - PlateauHour lt"
  have w: "\<bar>w\<bar> \<le> 3 * 2 ^ 31" using b by (simp add: w_def)
  have "wrap64 (wrap64 (endSec_of lt - startSec_of lt) - plateauSec_of lt) = 3600 * w"
    using b by (simp add: secs_int[OF assms] wrap64_id w_def)
  moreover have "f64_of_int (3600 * w) = of_int (3600 * w)"
    using w by (intro f64_of_int_exact) simp
  moreover have "(of_int (3600 * w) :: rat) / 2 = of_int (1800 * w)" by simp
  moreover have "fl (of_int (1800 * w)) = of_int (1800 * w)" using w by (intro fl_of_int) simp
  ultimately have base: "baselineRamp lt = of_int (1800 * w)"
    by (simp only: baselineRamp_def)
  have "wrap64 (PlateauOffset lt * 3600) = 3600 * PlateauOffset lt"
    using b by (simp add: wrap64_id)
  moreover have "f64_of_int (3600 * PlateauOffset lt) = of_int (3600 * PlateauOffset lt)"
    using b by (intro f64_of_int_exact) simp
  ultimately have off: "offsetSec lt = of_int (3600 * PlateauOffset lt)"
    by (simp only: offsetSec_def)
  have "fl (of_int (1800 * w + 3600 * PlateauOffset lt)) = of_int (1800 * w + 3600 * PlateauOffset lt)"
    using w b by (intro fl_of_int) simp
  then show "sunriseRamp lt = of_int (sunriseSecs lt)"
    by (simp add: sunriseRamp_def fadd_def base off sunriseSecs_def w_def)
  have "fl (of_int (1800 * w - 3600 * PlateauOffset lt)) = of_int (1800 * w - 3600 * PlateauOffset lt)"
    using w b by (intro fl_of_int) simp
  then show "sunsetRamp lt = of_int (sunsetSecs lt)"
    by (simp add: sunsetRamp_def fsub_def base off sunsetSecs_def w_def)
qed

lemma ramp_secs_bound:
  assumes "fits32 lt"
  shows "\<bar>sunriseSecs lt\<bar> \<le> 2 ^ 45" and "\<bar>sunsetSecs lt\<bar> \<le> 2 ^ 45"
  using fits32D(1-3,5)[OF assms] by (simp_all add: sunriseSecs_def sunsetSecs_def)

lemma fraction_unit:
  assumes "0 < R" "0 \<le> num" "num \<le> R"
  shows "0 \<le> fl (of_int num / of_int R)" and "fl (of_int num / of_int R) \<le> 1"
proof -
  have "of_int 0 \<le> (of_int num :: rat) / of_int R" using assms by simp
  then have "of_int 0 \<le> fl (of_int num / of_int R)" by (rule fl_int_ge) simp
  then show "0 \<le> fl (of_int num / of_int R)" by simp
  have "(of_int num :: rat) / of_int R \<le> of_int 1" using assms by simp
  then have "fl (of_int num / of_int R) \<le> of_int 1" by (rule fl_int_le) simp
  then show "fl (of_int num / of_int R) \<le> 1" by simp
qed

lemma rampLevel_eq:
  assumes lt: "fits32 lt" and S: "0 < StepSize lt" and B: "0 < Brightness lt"
    and R: "0 < R" "R \<le> 2 ^ 53" and num: "0 \<le> num" "num \<le> R"
  shows "rampLevel fused lt num (of_int R) =
           Inr (quantised (StepSize lt) (Brightness lt)
                  (steps fused (StepSize lt) (Brightness lt) (fl (of_int num / of_int R))))"
proof -
  define f where "f = fl (of_int num / of_int R)"
  define k where "k = steps fused (StepSize lt) (Brightness lt) f"
  note b = fits32D(7,8)[OF lt]
  have f: "0 \<le> f" "f \<le> 1" unfolding f_def using R(1) num by (rule fraction_unit)+
  have k: "0 \<le> k" "k \<le> Brightness lt div StepSize lt + 1"
    unfolding k_def using S b(1) B b(2) f by (rule steps_bounds)+
  define q where "q = Brightness lt div StepSize lt"
  define m where "m = Brightness lt mod StepSize lt"
  have dm: "Brightness lt = q * StepSize lt + m" by (simp add: q_def m_def)
  have m: "0 \<le> m" using S by (simp add: m_def)
  have "k * StepSize lt \<le> (q + 1) * StepSize lt"
    using k(2) S unfolding q_def by (intro mult_right_mono) simp_all
  also have "\<dots> \<le> Brightness lt + StepSize lt" using dm m by (simp add: algebra_simps)
  finally have ks: "k * StepSize lt < 2 ^ 32" using b by simp
  have ks0: "0 \<le> k * StepSize lt" using k(1) S by simp
  have e1: "f64_of_int num = of_int num" using num R by (intro f64_of_int_exact) simp
  have e2: "f64_of_int (StepSize lt) = of_int (StepSize lt)"
    using S b by (intro f64_of_int_exact) simp
  have e3: "f64_of_int (Brightness lt) = of_int (Brightness lt)"
    using B b by (intro f64_of_int_exact) simp
  have "fl (of_int (Brightness lt - StepSize lt)) = of_int (Brightness lt - StepSize lt)"
    using S B b by (intro fl_of_int) simp
  then have e4: "fsub (of_int (Brightness lt)) (of_int (StepSize lt))
                   = of_int (Brightness lt - StepSize lt)"
    by (simp add: fsub_def)
  have e5: "fdiv (of_int num) (of_int R) = Some f" using R(1) by (simp add: fdiv_def f_def)
  have "fl (of_int (k * StepSize lt)) = of_int (k * StepSize lt)"
    using ks ks0 by (intro fl_of_int) simp
  then have e6: "fmul (of_int k) (of_int (StepSize lt)) = of_int (k * StepSize lt)"
    by (simp add: fmul_def)
  have e7: "int_of_f64 (of_int (k * StepSize lt)) = Inr (k * StepSize lt)"
    using ks ks0 by (intro int_of_f64_of_int) simp_all
  have e8: "math_Round (fl ((if fused then fl (of_int (StepSize lt) + f * of_int (Brightness lt - StepSize lt))
              else fadd (of_int (StepSize lt)) (fmul f (of_int (Brightness lt - StepSize lt))))
              / of_int (StepSize lt))) = k"
    by (simp add: k_def steps_def raw_def fadd_def fmul_def)
  have e9: "\<And>x. fdiv x (of_int (StepSize lt)) = Some (fl (x / of_int (StepSize lt)))"
    using S by (simp add: fdiv_def)
  show ?thesis
    unfolding rampLevel_def e1 e2 e3 e4 e5 Let_def option.case e9 e8 e6 e7 sum.case
    by (simp add: quantised_def k_def f_def)
qed

lemma expectedAt_cases:
  assumes lt: "fits32 lt" and S: "0 < StepSize lt" and B: "0 < Brightness lt"
    and n: "0 \<le> n" "n < 86400"
  shows "expectedAt fused lt n =
    (if n < StartHour lt * 3600 \<or> EndHour lt * 3600 \<le> n then Inr 0
     else if n < StartHour lt * 3600 + sunriseSecs lt
       then Inr (level fused lt (n - StartHour lt * 3600) (sunriseSecs lt))
     else if n < StartHour lt * 3600 + sunriseSecs lt + PlateauHour lt * 3600
       then Inr (Brightness lt)
     else Inr (level fused lt (EndHour lt * 3600 - n) (sunsetSecs lt)))"
proof -
  note b = fits32D(1-3,5)[OF lt]
  note rb = ramp_secs_bound[OF lt]
  define st where "st = StartHour lt * 3600"
  define en where "en = EndHour lt * 3600"
  define ps where "ps = PlateauHour lt * 3600"
  define sr where "sr = sunriseSecs lt"
  define ss where "ss = sunsetSecs lt"
  have bb: "\<bar>st\<bar> \<le> 2 ^ 43" "\<bar>en\<bar> \<le> 2 ^ 43" "\<bar>ps\<bar> \<le> 2 ^ 43" "\<bar>sr\<bar> \<le> 2 ^ 45" "\<bar>ss\<bar> \<le> 2 ^ 45"
    using b rb by (simp_all add: st_def en_def ps_def sr_def ss_def)
  have sum: "en - st - ps = sr + ss"
    by (simp add: st_def en_def ps_def sr_def ss_def sunriseSecs_def sunsetSecs_def)
  have c1: "startSec_of lt = st" "endSec_of lt = en" "plateauSec_of lt = ps"
    by (simp_all add: secs_int[OF lt] st_def en_def ps_def)
  have c2: "sunriseRamp lt = of_int sr" "sunsetRamp lt = of_int ss"
    by (simp_all add: ramps_int[OF lt] sr_def ss_def)
  have c3: "f64_of_int n = of_int n" using n by (intro f64_of_int_exact) simp
  have "f64_of_int st = of_int st" using bb by (intro f64_of_int_exact) simp
  moreover have "fl (of_int (st + sr)) = of_int (st + sr)" using bb by (intro fl_of_int) simp
  ultimately have c4: "fadd (f64_of_int st) (of_int sr) = of_int (st + sr)"
    by (simp add: fadd_def)
  have c5: "int_of_f64 (of_int sr) = Inr sr" using bb by (intro int_of_f64_of_int) simp_all
  have c6: "wrap64 (st + sr) = st + sr" "wrap64 (st + sr + ps) = st + sr + ps"
    "wrap64 (n - st) = n - st" "wrap64 (en - n) = en - n"
    using bb n by (simp_all add: wrap64_id)
  have c7: "(of_int n < (of_int (st + sr) :: rat)) = (n < st + sr)" by (simp only: of_int_less_iff)
  have rise: "rampLevel fused lt (n - st) (of_int sr) = Inr (level fused lt (n - st) sr)"
    if "st \<le> n" "n < st + sr"
    unfolding level_def using lt S B
  proof (rule rampLevel_eq)
    show "0 < sr" "sr \<le> 2 ^ 53" "0 \<le> n - st" "n - st \<le> sr" using that bb by simp_all
  qed
  have set: "rampLevel fused lt (en - n) (of_int ss) = Inr (level fused lt (en - n) ss)"
    if "n < en" "st + sr + ps \<le> n"
    unfolding level_def using lt S B
  proof (rule rampLevel_eq)
    show "0 < ss" "ss \<le> 2 ^ 53" "0 \<le> en - n" "en - n \<le> ss" using that bb sum by simp_all
  qed
  show ?thesis
    unfolding expectedAt_def c1 c2 Let_def c3 c4 c5 sum.case c6 c7
      st_def[symmetric] en_def[symmetric] ps_def[symmetric] sr_def[symmetric] ss_def[symmetric]
    using rise set by auto
qed
section \<open>Properties of the schedule engine\<close>

lemma nowSec_of_valid:
  assumes "valid_clock now"
  shows "nowSec_of now = Hour now * 3600 + Minute now * 60 + Second now"
    and "0 \<le> nowSec_of now" and "nowSec_of now < 86400"
  using assms by (simp_all add: valid_clock_def nowSec_of_def wrap64_id)

lemma quantised_le: "quantised S B k \<le> B"
  by (simp add: quantised_def)

lemma quantised_dvd: "quantised S B k = B \<or> S dvd quantised S B k"
  by (simp add: quantised_def)

lemma quantised_ge:
  assumes "0 < S" "S \<le> B" "1 \<le> k"
  shows "S \<le> quantised S B k"
proof -
  have "1 * S \<le> k * S" using assms by (intro mult_right_mono) simp_all
  then show ?thesis using assms(2) by (simp add: quantised_def)
qed

lemma quantised_mono:
  assumes "0 < S" "k \<le> k'"
  shows "quantised S B k \<le> quantised S B k'"
proof -
  have "k * S \<le> k' * S" using assms by (intro mult_right_mono) simp_all
  then show ?thesis by (auto simp: quantised_def)
qed

lemma level_ge:
  assumes "fits32 lt" "0 < StepSize lt" "StepSize lt \<le> Brightness lt"
    and "0 < R" "0 \<le> num" "num \<le> R"
  shows "StepSize lt \<le> level fused lt num R"
proof -
  note b = fits32D(7,8)[OF assms(1)]
  have "0 < Brightness lt" using assms(2,3) by simp
  with assms b have "1 \<le> steps fused (StepSize lt) (Brightness lt) (fl (of_int num / of_int R))"
    by (intro steps_bounds(3) fraction_unit) simp_all
  then show ?thesis unfolding level_def using assms(2,3) by (intro quantised_ge)
qed

lemma level_mono:
  assumes "0 < StepSize lt" "StepSize lt \<le> Brightness lt" "0 < R" "num \<le> num'"
  shows "level fused lt num R \<le> level fused lt num' R"
proof -
  have "(of_int num :: rat) / of_int R \<le> of_int num' / of_int R"
    using assms(3,4) by (simp add: divide_right_mono)
  then have "fl (of_int num / of_int R) \<le> fl (of_int num' / of_int R)" by (rule fl_mono)
  with assms(1,2) show ?thesis unfolding level_def by (intro quantised_mono steps_mono)
qed

lemma windows_int:
  assumes "fits32 lt"
  shows "in_window lt n \<longleftrightarrow> StartHour lt * 3600 \<le> n \<and> n < EndHour lt * 3600"
    and "in_sunrise lt n \<longleftrightarrow>
           in_window lt n \<and> n < StartHour lt * 3600 + sunriseSecs lt"
    and "in_sunset lt n \<longleftrightarrow>
           in_window lt n \<and> StartHour lt * 3600 + sunriseSecs lt + PlateauHour lt * 3600 \<le> n"
proof -
  show "in_window lt n \<longleftrightarrow> StartHour lt * 3600 \<le> n \<and> n < EndHour lt * 3600"
    by (simp add: in_window_def secs_int[OF assms])
  have "(of_int n :: rat) < of_int (StartHour lt * 3600) + of_int (sunriseSecs lt)
          \<longleftrightarrow> n < StartHour lt * 3600 + sunriseSecs lt"
    by (simp only: of_int_add[symmetric] of_int_less_iff)
  then show "in_sunrise lt n \<longleftrightarrow> in_window lt n \<and> n < StartHour lt * 3600 + sunriseSecs lt"
    by (simp only: in_sunrise_def secs_int[OF assms] ramps_int[OF assms])
  have "(of_int (StartHour lt * 3600) :: rat) + of_int (sunriseSecs lt)
            + of_int (PlateauHour lt * 3600) \<le> of_int n
          \<longleftrightarrow> StartHour lt * 3600 + sunriseSecs lt + PlateauHour lt * 3600 \<le> n"
    by (simp only: of_int_add[symmetric] of_int_le_iff)
  then show "in_sunset lt n \<longleftrightarrow>
      in_window lt n \<and> StartHour lt * 3600 + sunriseSecs lt + PlateauHour lt * 3600 \<le> n"
    by (simp only: in_sunset_def secs_int[OF assms] ramps_int[OF assms])
qed

lemma ramp_sum:
  "sunriseSecs lt + sunsetSecs lt + PlateauHour lt * 3600 = EndHour lt * 3600 - StartHour lt * 3600"
  by (simp add: sunriseSecs_def sunsetSecs_def)

lemma config_invariantD:
  assumes "config_invariant lt"
  shows "0 < StepSize lt" "0 < Brightness lt" "0 \<le> PlateauHour lt"
  using assms by (simp_all add: config_invariant_def)

lemma expected_result:
  assumes "fits32 lt" "0 < StepSize lt" "0 < Brightness lt" "valid_clock now"
  shows "\<exists>r. GetExpectedBrightness fused lt now = Inr r \<and> r \<le> Brightness lt \<and>
           (r = Brightness lt \<or> StepSize lt dvd r)"
proof -
  note n = nowSec_of_valid(2,3)[OF assms(4)]
  show ?thesis
    unfolding GetExpectedBrightness_def expectedAt_cases[OF assms(1-3) n]
    using assms(3) by (auto simp: level_def quantised_le quantised_dvd)
qed

lemma level_interpolated: "level fused lt num R = interpolated fused lt num (of_int R)"
  by (simp add: level_def interpolated_def)

lemma rampLevel_interpolated:
  assumes "fits32 lt" "0 < StepSize lt" "0 < Brightness lt"
    and "0 < R" "\<bar>R\<bar> \<le> 2 ^ 45" "0 \<le> num" "num \<le> R"
  shows "rampLevel fused lt num (of_int R) = Inr (interpolated fused lt num (of_int R))"
proof -
  have "R \<le> 2 ^ 53" using assms(5) by simp
  with assms(1-4) show ?thesis
    unfolding interpolated_def using assms(6,7) by (rule rampLevel_eq)
qed

text \<open>
  C5, as the code has it. For every configuration that satisfies the invariant and whose
  fields fit 32 bits, \<open>GetExpectedBrightness\<close> returns a brightness at every time of
  day: 0 outside the window, the quantised sunrise interpolation before
  \<open>startSec + sunriseRamp\<close>, the quantised sunset interpolation from
  \<open>startSec + sunriseRamp + plateauSec\<close> on, and the maximum in between. The sunrise
  interpolation is the result only where the sunrise ramp is positive and the sunset
  interpolation only where the sunset ramp is positive, and there \<open>rampLevel\<close> returns
  it without fault, so no ramp that is zero or negative is divided by. With a sunrise ramp that is zero or negative the result inside
  the window is the maximum until \<open>startSec + sunriseRamp + plateauSec\<close> and the sunset
  interpolation from then on; with a sunset ramp that is zero or negative it is the
  sunrise interpolation before \<open>startSec + sunriseRamp\<close> and the maximum from then on.
\<close>

theorem GetExpectedBrightness_total:
  assumes "config_invariant lt" "fits32 lt" "valid_clock now"
  shows "GetExpectedBrightness fused lt now =
           (if \<not> in_window lt (nowSec_of now) then Inr 0
            else if in_sunrise lt (nowSec_of now)
              then Inr (interpolated fused lt (nowSec_of now - startSec_of lt) (sunriseRamp lt))
            else if in_sunset lt (nowSec_of now)
              then Inr (interpolated fused lt (endSec_of lt - nowSec_of now) (sunsetRamp lt))
            else Inr (Brightness lt)) \<and>
         (in_sunrise lt (nowSec_of now) \<longrightarrow>
            0 < sunriseRamp lt \<and>
            rampLevel fused lt (nowSec_of now - startSec_of lt) (sunriseRamp lt) =
              Inr (interpolated fused lt (nowSec_of now - startSec_of lt) (sunriseRamp lt))) \<and>
         (in_sunset lt (nowSec_of now) \<longrightarrow>
            0 < sunsetRamp lt \<and>
            rampLevel fused lt (endSec_of lt - nowSec_of now) (sunsetRamp lt) =
              Inr (interpolated fused lt (endSec_of lt - nowSec_of now) (sunsetRamp lt))) \<and>
         (sunriseRamp lt \<le> 0 \<and> in_window lt (nowSec_of now) \<longrightarrow>
            GetExpectedBrightness fused lt now =
              (if in_sunset lt (nowSec_of now)
               then Inr (interpolated fused lt (endSec_of lt - nowSec_of now) (sunsetRamp lt))
               else Inr (Brightness lt))) \<and>
         (sunsetRamp lt \<le> 0 \<and> in_window lt (nowSec_of now) \<longrightarrow>
            GetExpectedBrightness fused lt now =
              (if in_sunrise lt (nowSec_of now)
               then Inr (interpolated fused lt (nowSec_of now - startSec_of lt) (sunriseRamp lt))
               else Inr (Brightness lt)))"
proof -
  note c = config_invariantD[OF assms(1)]
  define n where "n = nowSec_of now"
  note E = expectedAt_cases[OF assms(2) c(1,2) nowSec_of_valid(2,3)[OF assms(3)], folded n_def]
  note W = windows_int[OF assms(2), of n]
  note S = secs_int[OF assms(2)]
  note R = ramps_int[OF assms(2)]
  have p: "0 \<le> PlateauHour lt * 3600" using c(3) by simp
  have pos1: "in_sunrise lt n \<Longrightarrow> 0 < sunriseSecs lt" unfolding W by simp
  have pos2: "in_sunset lt n \<Longrightarrow> 0 < sunsetSecs lt"
    using ramp_sum[of lt] unfolding W by simp
  have main: "GetExpectedBrightness fused lt now =
      (if \<not> in_window lt n then Inr 0
       else if in_sunrise lt n
         then Inr (interpolated fused lt (n - startSec_of lt) (sunriseRamp lt))
       else if in_sunset lt n
         then Inr (interpolated fused lt (endSec_of lt - n) (sunsetRamp lt))
       else Inr (Brightness lt))"
    unfolding GetExpectedBrightness_def n_def[symmetric] E W S R level_interpolated
    using p by auto
  note rb = ramp_secs_bound[OF assms(2)]
  have r1: "rampLevel fused lt (n - startSec_of lt) (sunriseRamp lt) =
      Inr (interpolated fused lt (n - startSec_of lt) (sunriseRamp lt))" if "in_sunrise lt n"
    unfolding R S using assms(2) c(1,2) pos1[OF that] rb(1)
  proof (rule rampLevel_interpolated)
    show "0 \<le> n - StartHour lt * 3600" "n - StartHour lt * 3600 \<le> sunriseSecs lt"
      using that unfolding W by simp_all
  qed
  have r2: "rampLevel fused lt (endSec_of lt - n) (sunsetRamp lt) =
      Inr (interpolated fused lt (endSec_of lt - n) (sunsetRamp lt))" if "in_sunset lt n"
    unfolding R S using assms(2) c(1,2) pos2[OF that] rb(2)
  proof (rule rampLevel_interpolated)
    show "0 \<le> EndHour lt * 3600 - n" "EndHour lt * 3600 - n \<le> sunsetSecs lt"
      using that ramp_sum[of lt] unfolding W by simp_all
  qed
  have a0: "in_sunrise lt n \<longrightarrow> 0 < sunriseRamp lt" using pos1 by (simp add: R)
  have b0: "in_sunset lt n \<longrightarrow> 0 < sunsetRamp lt" using pos2 by (simp add: R)
  have a: "in_sunrise lt n \<longrightarrow>
      0 < sunriseRamp lt \<and>
      rampLevel fused lt (n - startSec_of lt) (sunriseRamp lt) =
        Inr (interpolated fused lt (n - startSec_of lt) (sunriseRamp lt))"
    using a0 r1 by blast
  have b: "in_sunset lt n \<longrightarrow>
      0 < sunsetRamp lt \<and>
      rampLevel fused lt (endSec_of lt - n) (sunsetRamp lt) =
        Inr (interpolated fused lt (endSec_of lt - n) (sunsetRamp lt))"
    using b0 r2 by blast
  have d: "sunriseRamp lt \<le> 0 \<and> in_window lt n \<longrightarrow>
      GetExpectedBrightness fused lt now =
        (if in_sunset lt n
         then Inr (interpolated fused lt (endSec_of lt - n) (sunsetRamp lt))
         else Inr (Brightness lt))"
    using main a0 by auto
  have e: "sunsetRamp lt \<le> 0 \<and> in_window lt n \<longrightarrow>
      GetExpectedBrightness fused lt now =
        (if in_sunrise lt n
         then Inr (interpolated fused lt (n - startSec_of lt) (sunriseRamp lt))
         else Inr (Brightness lt))"
    using main b0 by auto
  show ?thesis using main a b d e unfolding n_def by blast
qed

theorem GetExpectedBrightness_total_witness:
  "config_invariant (timer_with 6 (- 3) 100) \<and> fits32 (timer_with 6 (- 3) 100) \<and>
   valid_clock (at_clock 8 0 0) \<and> valid_clock (at_clock 18 0 0) \<and>
   sunriseRamp (timer_with 6 (- 3) 100) \<le> 0 \<and>
   in_window (timer_with 6 (- 3) 100) (nowSec_of (at_clock 8 0 0)) \<and>
   \<not> in_sunset (timer_with 6 (- 3) 100) (nowSec_of (at_clock 8 0 0)) \<and>
   GetExpectedBrightness False (timer_with 6 (- 3) 100) (at_clock 8 0 0) = Inr 100 \<and>
   in_window (timer_with 6 (- 3) 100) (nowSec_of (at_clock 18 0 0)) \<and>
   in_sunset (timer_with 6 (- 3) 100) (nowSec_of (at_clock 18 0 0)) \<and>
   0 < sunsetRamp (timer_with 6 (- 3) 100) \<and>
   GetExpectedBrightness False (timer_with 6 (- 3) 100) (at_clock 18 0 0) = Inr 40 \<and>
   config_invariant (timer_with 6 3 100) \<and> fits32 (timer_with 6 3 100) \<and>
   valid_clock (at_clock 10 0 0) \<and> valid_clock (at_clock 19 59 59) \<and>
   sunsetRamp (timer_with 6 3 100) \<le> 0 \<and>
   in_window (timer_with 6 3 100) (nowSec_of (at_clock 10 0 0)) \<and>
   in_sunrise (timer_with 6 3 100) (nowSec_of (at_clock 10 0 0)) \<and>
   0 < sunriseRamp (timer_with 6 3 100) \<and>
   GetExpectedBrightness False (timer_with 6 3 100) (at_clock 10 0 0) = Inr 40 \<and>
   in_window (timer_with 6 3 100) (nowSec_of (at_clock 19 59 59)) \<and>
   \<not> in_sunrise (timer_with 6 3 100) (nowSec_of (at_clock 19 59 59)) \<and>
   GetExpectedBrightness False (timer_with 6 3 100) (at_clock 19 59 59) = Inr 100"
proof -
  let ?A = "timer_with 6 (- 3) 100"
  let ?B = "timer_with 6 3 100"
  have a: "config_invariant ?A" "fits32 ?A" by code_simp+
  have b: "config_invariant ?B" "fits32 ?B" by code_simp+
  have v: "valid_clock (at_clock 8 0 0)" "valid_clock (at_clock 18 0 0)"
    "valid_clock (at_clock 10 0 0)" "valid_clock (at_clock 19 59 59)"
    by code_simp+
  have a1: "sunriseRamp ?A \<le> 0 \<and> in_window ?A (nowSec_of (at_clock 8 0 0))"
    and a2: "\<not> in_sunset ?A (nowSec_of (at_clock 8 0 0))"
    and a3: "sunriseRamp ?A \<le> 0 \<and> in_window ?A (nowSec_of (at_clock 18 0 0))"
    and a4: "in_sunset ?A (nowSec_of (at_clock 18 0 0))"
    and a5: "interpolated False ?A (endSec_of ?A - nowSec_of (at_clock 18 0 0)) (sunsetRamp ?A) = 40"
    and a6: "Brightness ?A = 100"
    by code_simp+
  have b1: "sunsetRamp ?B \<le> 0 \<and> in_window ?B (nowSec_of (at_clock 10 0 0))"
    and b2: "in_sunrise ?B (nowSec_of (at_clock 10 0 0))"
    and b3: "sunsetRamp ?B \<le> 0 \<and> in_window ?B (nowSec_of (at_clock 19 59 59))"
    and b4: "\<not> in_sunrise ?B (nowSec_of (at_clock 19 59 59))"
    and b5: "interpolated False ?B (nowSec_of (at_clock 10 0 0) - startSec_of ?B) (sunriseRamp ?B) = 40"
    and b6: "Brightness ?B = 100"
    by code_simp+
  note T1 = GetExpectedBrightness_total[OF a v(1), of False]
  note T2 = GetExpectedBrightness_total[OF a v(2), of False]
  note T3 = GetExpectedBrightness_total[OF b v(3), of False]
  note T4 = GetExpectedBrightness_total[OF b v(4), of False]
  have r1: "GetExpectedBrightness False ?A (at_clock 8 0 0) = Inr 100"
    using T1 a1 a2 a6 by simp
  have r2: "GetExpectedBrightness False ?A (at_clock 18 0 0) = Inr 40"
    and p2: "0 < sunsetRamp ?A"
    using T2 a3 a4 a5 by simp_all
  have r3: "GetExpectedBrightness False ?B (at_clock 10 0 0) = Inr 40"
    and p3: "0 < sunriseRamp ?B"
    using T3 b1 b2 b5 by simp_all
  have r4: "GetExpectedBrightness False ?B (at_clock 19 59 59) = Inr 100"
    using T4 b3 b4 b6 by simp
  show ?thesis using a b v a1 a2 a3 a4 b1 b2 b3 b4 r1 r2 r3 r4 p2 p3 by simp
qed

text \<open>
  Against C5 as stated: with a plateau of one hour and an offset of minus eight hours the
  sunrise ramp is negative, the configuration satisfies the invariant, and at the start
  of the window the result is 90, not the maximum 100.
\<close>

theorem GetExpectedBrightness_jump_counterexample:
  "config_invariant (timer_with 1 (- 8) 100) \<and> valid_clock (at_clock 8 0 0) \<and>
   sunriseRamp (timer_with 1 (- 8) 100) \<le> 0 \<and>
   in_window (timer_with 1 (- 8) 100) (nowSec_of (at_clock 8 0 0)) \<and>
   Brightness (timer_with 1 (- 8) 100) = 100 \<and>
   GetExpectedBrightness False (timer_with 1 (- 8) 100) (at_clock 8 0 0) = Inr 90 \<and>
   GetExpectedBrightness True (timer_with 1 (- 8) 100) (at_clock 8 0 0) = Inr 90"
  by code_simp

text \<open>
  C6, as the code has it. Under the same conditions the value returned never exceeds the
  maximum brightness, and it is the maximum brightness itself or an exact multiple of
  the step size.
\<close>

theorem GetExpectedBrightness_quantised:
  assumes "config_invariant lt" "fits32 lt" "valid_clock now"
  shows "\<exists>r. GetExpectedBrightness fused lt now = Inr r \<and> r \<le> Brightness lt \<and>
           (r = Brightness lt \<or> StepSize lt dvd r)"
  using assms(2) config_invariantD(1,2)[OF assms(1)] assms(3) by (rule expected_result)

theorem GetExpectedBrightness_quantised_witness:
  "config_invariant example_timer \<and> fits32 example_timer \<and> valid_clock (at_clock 9 13 59) \<and>
   (\<exists>r. GetExpectedBrightness False example_timer (at_clock 9 13 59) = Inr r \<and> r \<le> 100 \<and>
      (r = 100 \<or> 10 dvd r))"
proof -
  have h: "config_invariant example_timer" "fits32 example_timer" "valid_clock (at_clock 9 13 59)"
    by code_simp+
  show ?thesis
    using h GetExpectedBrightness_quantised[OF h, of False] by (simp add: example_timer_def)
qed

text \<open>
  Against C6 as stated: with a maximum of 95 and a step of 10 the plateau value is 95,
  which is not a multiple of the step.
\<close>

theorem GetExpectedBrightness_multiple_counterexample:
  "config_invariant (timer_with 6 0 95) \<and> valid_clock (at_clock 12 0 0) \<and>
   StepSize (timer_with 6 0 95) = 10 \<and> \<not> (10::int) dvd 95 \<and>
   GetExpectedBrightness False (timer_with 6 0 95) (at_clock 12 0 0) = Inr 95 \<and>
   GetExpectedBrightness True (timer_with 6 0 95) (at_clock 12 0 0) = Inr 95"
  by code_simp

text \<open>
  C8, as the code has it. For a configuration that satisfies the invariant, fits 32 bits
  and has a maximum brightness of at least one step, the brightness does not decrease
  between two times of the sunrise window and does not increase between two times of the
  sunset window.
\<close>

theorem GetExpectedBrightness_monotone:
  assumes "config_invariant lt" "fits32 lt" "StepSize lt \<le> Brightness lt"
    and "valid_clock t1" "valid_clock t2" "nowSec_of t1 \<le> nowSec_of t2"
  shows "\<exists>r1 r2. GetExpectedBrightness fused lt t1 = Inr r1 \<and>
           GetExpectedBrightness fused lt t2 = Inr r2 \<and>
           (in_sunrise lt (nowSec_of t1) \<and> in_sunrise lt (nowSec_of t2) \<longrightarrow> r1 \<le> r2) \<and>
           (in_sunset lt (nowSec_of t1) \<and> in_sunset lt (nowSec_of t2) \<longrightarrow> r2 \<le> r1)"
proof -
  note c = config_invariantD[OF assms(1)]
  note E1 = expectedAt_cases[OF assms(2) c(1,2) nowSec_of_valid(2,3)[OF assms(4)]]
  note E2 = expectedAt_cases[OF assms(2) c(1,2) nowSec_of_valid(2,3)[OF assms(5)]]
  note W = windows_int[OF assms(2)]
  define n1 where "n1 = nowSec_of t1"
  define n2 where "n2 = nowSec_of t2"
  obtain r1 where r1: "GetExpectedBrightness fused lt t1 = Inr r1"
    using expected_result[OF assms(2) c(1,2) assms(4)] by blast
  obtain r2 where r2: "GetExpectedBrightness fused lt t2 = Inr r2"
    using expected_result[OF assms(2) c(1,2) assms(5)] by blast
  have le: "n1 \<le> n2" using assms(6) by (simp add: n1_def n2_def)
  have rise: "r1 \<le> r2" if "in_sunrise lt n1" "in_sunrise lt n2"
  proof -
    have R: "0 < sunriseSecs lt" using that(1) unfolding W by simp
    have "r1 = level fused lt (n1 - StartHour lt * 3600) (sunriseSecs lt)"
      using r1 that(1) unfolding GetExpectedBrightness_def E1 W n1_def by (simp split: if_splits)
    moreover have "r2 = level fused lt (n2 - StartHour lt * 3600) (sunriseSecs lt)"
      using r2 that(2) unfolding GetExpectedBrightness_def E2 W n2_def by (simp split: if_splits)
    moreover have "level fused lt (n1 - StartHour lt * 3600) (sunriseSecs lt)
        \<le> level fused lt (n2 - StartHour lt * 3600) (sunriseSecs lt)"
      using c(1) assms(3) R le by (intro level_mono) simp_all
    ultimately show ?thesis by simp
  qed
  have set: "r2 \<le> r1" if "in_sunset lt n1" "in_sunset lt n2"
  proof -
    have R: "0 < sunsetSecs lt" using that(1) ramp_sum[of lt] unfolding W by simp
    have p: "0 \<le> PlateauHour lt * 3600" using c(3) by simp
    have "r1 = level fused lt (EndHour lt * 3600 - n1) (sunsetSecs lt)"
      using r1 that(1) R p unfolding GetExpectedBrightness_def E1 W n1_def
      by (simp split: if_splits)
    moreover have "r2 = level fused lt (EndHour lt * 3600 - n2) (sunsetSecs lt)"
      using r2 that(2) R p unfolding GetExpectedBrightness_def E2 W n2_def
      by (simp split: if_splits)
    moreover have "level fused lt (EndHour lt * 3600 - n2) (sunsetSecs lt)
        \<le> level fused lt (EndHour lt * 3600 - n1) (sunsetSecs lt)"
      using c(1) assms(3) R le by (intro level_mono) simp_all
    ultimately show ?thesis by simp
  qed
  show ?thesis using r1 r2 rise set unfolding n1_def n2_def by blast
qed

theorem GetExpectedBrightness_monotone_witness:
  "config_invariant example_timer \<and> fits32 example_timer \<and>
   StepSize example_timer \<le> Brightness example_timer \<and>
   valid_clock (at_clock 8 30 0) \<and> valid_clock (at_clock 9 30 0) \<and>
   nowSec_of (at_clock 8 30 0) \<le> nowSec_of (at_clock 9 30 0) \<and>
   in_sunrise example_timer (nowSec_of (at_clock 8 30 0)) \<and>
   in_sunrise example_timer (nowSec_of (at_clock 9 30 0)) \<and>
   (\<exists>r1 r2. GetExpectedBrightness False example_timer (at_clock 8 30 0) = Inr r1 \<and>
      GetExpectedBrightness False example_timer (at_clock 9 30 0) = Inr r2 \<and> r1 \<le> r2) \<and>
   valid_clock (at_clock 17 0 0) \<and> valid_clock (at_clock 19 0 0) \<and>
   nowSec_of (at_clock 17 0 0) \<le> nowSec_of (at_clock 19 0 0) \<and>
   in_sunset example_timer (nowSec_of (at_clock 17 0 0)) \<and>
   in_sunset example_timer (nowSec_of (at_clock 19 0 0)) \<and>
   (\<exists>r1 r2. GetExpectedBrightness False example_timer (at_clock 17 0 0) = Inr r1 \<and>
      GetExpectedBrightness False example_timer (at_clock 19 0 0) = Inr r2 \<and> r2 \<le> r1)"
proof -
  have h: "config_invariant example_timer" "fits32 example_timer"
    "StepSize example_timer \<le> Brightness example_timer"
    by code_simp+
  have a: "valid_clock (at_clock 8 30 0)" "valid_clock (at_clock 9 30 0)"
    "nowSec_of (at_clock 8 30 0) \<le> nowSec_of (at_clock 9 30 0)"
    by code_simp+
  have a': "in_sunrise example_timer (nowSec_of (at_clock 8 30 0))"
    "in_sunrise example_timer (nowSec_of (at_clock 9 30 0))"
    by code_simp+
  have b: "valid_clock (at_clock 17 0 0)" "valid_clock (at_clock 19 0 0)"
    "nowSec_of (at_clock 17 0 0) \<le> nowSec_of (at_clock 19 0 0)"
    by code_simp+
  have b': "in_sunset example_timer (nowSec_of (at_clock 17 0 0))"
    "in_sunset example_timer (nowSec_of (at_clock 19 0 0))"
    by code_simp+
  have "\<exists>r1 r2. GetExpectedBrightness False example_timer (at_clock 8 30 0) = Inr r1 \<and>
      GetExpectedBrightness False example_timer (at_clock 9 30 0) = Inr r2 \<and> r1 \<le> r2"
    using GetExpectedBrightness_monotone[OF h a, of False] a' by blast
  moreover have "\<exists>r1 r2. GetExpectedBrightness False example_timer (at_clock 17 0 0) = Inr r1 \<and>
      GetExpectedBrightness False example_timer (at_clock 19 0 0) = Inr r2 \<and> r2 \<le> r1"
    using GetExpectedBrightness_monotone[OF h b, of False] b' by blast
  ultimately show ?thesis using h a a' b b' by blast
qed

text \<open>
  Against C8 as stated: a maximum of 3 under a step of 10 satisfies the invariant and has
  positive ramps; the brightness is 3 at the start of the sunrise and 0 at its end.
\<close>

theorem GetExpectedBrightness_monotone_counterexample:
  "config_invariant (timer_with 6 0 3) \<and> 0 < sunriseRamp (timer_with 6 0 3) \<and>
   0 < sunsetRamp (timer_with 6 0 3) \<and>
   valid_clock (at_clock 8 0 0) \<and> valid_clock (at_clock 10 59 0) \<and>
   in_sunrise (timer_with 6 0 3) (nowSec_of (at_clock 8 0 0)) \<and>
   in_sunrise (timer_with 6 0 3) (nowSec_of (at_clock 10 59 0)) \<and>
   nowSec_of (at_clock 8 0 0) \<le> nowSec_of (at_clock 10 59 0) \<and>
   GetExpectedBrightness False (timer_with 6 0 3) (at_clock 8 0 0) = Inr 3 \<and>
   GetExpectedBrightness False (timer_with 6 0 3) (at_clock 10 59 0) = Inr 0 \<and>
   GetExpectedBrightness True (timer_with 6 0 3) (at_clock 8 0 0) = Inr 3 \<and>
   GetExpectedBrightness True (timer_with 6 0 3) (at_clock 10 59 0) = Inr 0"
  by code_simp

text \<open>
  C9. For the configuration with start 8, end 20, plateau 6, offset -1, step 10 and
  maximum 100 the brightness is 10 at 08:00:00, 100 at 14:00:00, 0 at 21:00:00 and 0 at
  07:59:59, whether or not the multiplication and the addition are fused.
\<close>

theorem GetExpectedBrightness_example:
  "GetExpectedBrightness fused example_timer (at_clock 8 0 0) = Inr 10 \<and>
   GetExpectedBrightness fused example_timer (at_clock 14 0 0) = Inr 100 \<and>
   GetExpectedBrightness fused example_timer (at_clock 21 0 0) = Inr 0 \<and>
   GetExpectedBrightness fused example_timer (at_clock 7 59 59) = Inr 0"
proof -
  have "GetExpectedBrightness True example_timer (at_clock 8 0 0) = Inr 10"
    "GetExpectedBrightness True example_timer (at_clock 14 0 0) = Inr 100"
    "GetExpectedBrightness True example_timer (at_clock 21 0 0) = Inr 0"
    "GetExpectedBrightness True example_timer (at_clock 7 59 59) = Inr 0"
    "GetExpectedBrightness False example_timer (at_clock 8 0 0) = Inr 10"
    "GetExpectedBrightness False example_timer (at_clock 14 0 0) = Inr 100"
    "GetExpectedBrightness False example_timer (at_clock 21 0 0) = Inr 0"
    "GetExpectedBrightness False example_timer (at_clock 7 59 59) = Inr 0"
    by code_simp+
  then show ?thesis by (cases fused) simp_all
qed

text \<open>
  C10, as the code has it. When both ramps are strictly positive, the maximum brightness
  is at least the positive step size and the fields of the configuration fit 32 bits,
  every time inside the window \<open>[startSec, endSec)\<close> gets a brightness of at least one
  step: inside the window the lamp is never computed as off.
\<close>

theorem GetExpectedBrightness_on_inside_window:
  assumes "fits32 lt" "0 < sunriseRamp lt" "0 < sunsetRamp lt"
    and "0 < StepSize lt" "StepSize lt \<le> Brightness lt"
    and "valid_clock now" "in_window lt (nowSec_of now)"
  shows "\<exists>r. GetExpectedBrightness fused lt now = Inr r \<and> StepSize lt \<le> r"
proof -
  have B: "0 < Brightness lt" using assms(4,5) by simp
  define n where "n = nowSec_of now"
  note E = expectedAt_cases[OF assms(1,4) B nowSec_of_valid(2,3)[OF assms(6)], folded n_def]
  have R: "0 < sunriseSecs lt" "0 < sunsetSecs lt"
    using assms(2,3) by (simp_all add: ramps_int[OF assms(1)])
  have w: "StartHour lt * 3600 \<le> n" "n < EndHour lt * 3600"
    using assms(7) unfolding windows_int(1)[OF assms(1)] n_def by simp_all
  consider (rise) "n < StartHour lt * 3600 + sunriseSecs lt"
    | (plateau) "StartHour lt * 3600 + sunriseSecs lt \<le> n"
        "n < StartHour lt * 3600 + sunriseSecs lt + PlateauHour lt * 3600"
    | (set) "StartHour lt * 3600 + sunriseSecs lt \<le> n"
        "StartHour lt * 3600 + sunriseSecs lt + PlateauHour lt * 3600 \<le> n"
    by linarith
  then show ?thesis
  proof cases
    case rise
    have "StepSize lt \<le> level fused lt (n - StartHour lt * 3600) (sunriseSecs lt)"
      using assms(1,4,5) R(1) w rise by (intro level_ge) simp_all
    then show ?thesis
      using w rise unfolding GetExpectedBrightness_def n_def[symmetric] E by simp
  next
    case plateau
    then show ?thesis
      using w assms(5) unfolding GetExpectedBrightness_def n_def[symmetric] E by simp
  next
    case set
    have "EndHour lt * 3600 - n \<le> sunsetSecs lt" using set(2) ramp_sum[of lt] by simp
    then have "StepSize lt \<le> level fused lt (EndHour lt * 3600 - n) (sunsetSecs lt)"
      using assms(1,4,5) R(2) w by (intro level_ge) simp_all
    then show ?thesis
      using w set unfolding GetExpectedBrightness_def n_def[symmetric] E by simp
  qed
qed

theorem GetExpectedBrightness_on_inside_window_witness:
  "fits32 example_timer \<and> 0 < sunriseRamp example_timer \<and> 0 < sunsetRamp example_timer \<and>
   0 < StepSize example_timer \<and> StepSize example_timer \<le> Brightness example_timer \<and>
   valid_clock (at_clock 8 0 0) \<and> in_window example_timer (nowSec_of (at_clock 8 0 0)) \<and>
   (\<exists>r. GetExpectedBrightness False example_timer (at_clock 8 0 0) = Inr r \<and>
      StepSize example_timer \<le> r)"
proof -
  have h: "fits32 example_timer" "0 < sunriseRamp example_timer" "0 < sunsetRamp example_timer"
    "0 < StepSize example_timer" "StepSize example_timer \<le> Brightness example_timer"
    "valid_clock (at_clock 8 0 0)" "in_window example_timer (nowSec_of (at_clock 8 0 0))"
    by code_simp+
  show ?thesis using h GetExpectedBrightness_on_inside_window[OF h, of False] by blast
qed

text \<open>
  Against C10 as stated: a step size and a maximum of \<open>2 ^ 53 + 13\<close> satisfy every
  condition of the claim, but \<open>float64\<close> holds no odd number of that size. The step
  becomes \<open>2 ^ 53 + 12\<close> when it is converted, and that is the result at the start of
  the window and an hour into it: one step by the count, less than the step size by the
  value.
\<close>

theorem GetExpectedBrightness_below_step_counterexample:
  "0 < sunriseRamp huge_timer \<and> 0 < sunsetRamp huge_timer \<and> 0 < StepSize huge_timer \<and>
   StepSize huge_timer \<le> Brightness huge_timer \<and> valid_clock (at_clock 8 0 0) \<and>
   in_window huge_timer (nowSec_of (at_clock 8 0 0)) \<and>
   StepSize huge_timer = 9007199254741005 \<and>
   GetExpectedBrightness False huge_timer (at_clock 8 0 0) = Inr 9007199254741004 \<and>
   GetExpectedBrightness True huge_timer (at_clock 8 0 0) = Inr 9007199254741004 \<and>
   valid_clock (at_clock 9 0 0) \<and> in_window huge_timer (nowSec_of (at_clock 9 0 0)) \<and>
   startSec_of huge_timer < nowSec_of (at_clock 9 0 0) \<and>
   GetExpectedBrightness False huge_timer (at_clock 9 0 0) = Inr 9007199254741004 \<and>
   GetExpectedBrightness True huge_timer (at_clock 9 0 0) = Inr 9007199254741004"
  by code_simp

section \<open>Properties of the device session\<close>

lemma Login_skip: "token_fresh api w \<Longrightarrow> Login api w = (None, api, w)"
  by (simp add: Login_def token_fresh_def)

lemma Login_sent:
  "sent (snd (snd (Login api w))) =
     (if token_fresh api w then sent w else sent w @ [login_request api])"
  by (simp add: Login_def token_fresh_def http_post_def login_request_def
      split: reply.splits option.splits)

lemma Login_grows: "\<exists>rest. sent (snd (snd (Login api w))) = sent w @ rest"
  by (simp add: Login_sent)

lemma ensureToken_grows: "\<exists>rest. sent (snd (snd (ensureToken api w))) = sent w @ rest"
  by (simp add: ensureToken_def Login_grows)

lemma http_post_sent:
  "sent (snd (http_post path api b w)) =
     sent w @ [Request (BaseURL api @ path) (Token api) (DeviceID api) b]"
  by (simp add: http_post_def)

lemma GetLightData_world:
  "snd (snd (GetLightData api w)) =
     (case ensureToken api w of
        (Some e, api1, w1) \<Rightarrow> w1
      | (None, api1, w1) \<Rightarrow> snd (http_post ''/udm/getDeviceList/v1'' api1 ListBody w1))"
  by (simp add: GetLightData_def Let_def
      split: prod.splits option.splits reply.splits list.splits)

lemma GetLightData_grows: "\<exists>rest. sent (snd (snd (GetLightData api w))) = sent w @ rest"
proof -
  obtain r api1 w1 where e: "ensureToken api w = (r, api1, w1)" by (cases "ensureToken api w")
  obtain rest where g: "sent w1 = sent w @ rest" using ensureToken_grows[of api w] e by auto
  show ?thesis
    unfolding GetLightData_world e using g by (cases r) (simp_all add: http_post_sent)
qed

lemma SetBrightness_grows:
  "\<exists>rest. sent (snd (snd (SetBrightness brightness api w))) = sent w @ rest"
proof -
  define pre where "pre = (if DeviceID api = ''''
            then (case GetLightData api w of
                    (Inl e, api', w') \<Rightarrow> (Some e, api', w')
                  | (Inr _, api', w') \<Rightarrow> (None, api', w'))
            else (None, api, w))"
  obtain r api1 w1 where p: "pre = (r, api1, w1)" by (cases pre)
  have "snd (snd pre) = (if DeviceID api = '''' then snd (snd (GetLightData api w)) else w)"
    by (simp add: pre_def split: prod.splits sum.splits)
  then obtain rest1 where g1: "sent w1 = sent w @ rest1"
    using GetLightData_grows[of api w] p by (auto split: if_splits)
  obtain r2 api2 w2 where e: "ensureToken api1 w1 = (r2, api2, w2)"
    by (cases "ensureToken api1 w1")
  obtain rest2 where g2: "sent w2 = sent w1 @ rest2"
    using ensureToken_grows[of api1 w1] e by auto
  have "\<exists>rest3. sent (snd (snd (SetBrightness brightness api w))) = sent w2 @ rest3 \<or>
          sent (snd (snd (SetBrightness brightness api w))) = sent w1 @ rest3"
    unfolding SetBrightness_def pre_def[symmetric] p
    by (cases r; cases r2) (auto simp: e http_post_def split: reply.splits)
  then show ?thesis using g1 g2 by auto
qed

lemma fresh_session_login:
  "sent (snd (snd (Login (NewMarsHydroAPI e p wn tz lg) w))) =
     sent w @ [login_request (NewMarsHydroAPI e p wn tz lg)]"
  by (simp add: Login_sent token_fresh_def NewMarsHydroAPI_def)

lemma apply_attempt_sent:
  "\<exists>rest. sent (snd (apply_attempt mhAccount state w)) =
     sent w @ login_request (NewMarsHydroAPI (cfg_Email mhAccount) (cfg_Password mhAccount)
        (cfg_Wifiname mhAccount) (cfg_Timezone mhAccount) (cfg_Language mhAccount)) # rest"
proof -
  define api0 where "api0 = NewMarsHydroAPI (cfg_Email mhAccount) (cfg_Password mhAccount)
        (cfg_Wifiname mhAccount) (cfg_Timezone mhAccount) (cfg_Language mhAccount)"
  obtain r api1 w1 where l: "Login api0 w = (r, api1, w1)" by (cases "Login api0 w")
  have s1: "sent w1 = sent w @ [login_request api0]"
    using fresh_session_login[of "cfg_Email mhAccount" "cfg_Password mhAccount"
        "cfg_Wifiname mhAccount" "cfg_Timezone mhAccount" "cfg_Language mhAccount" w] l
    by (simp add: api0_def)
  show ?thesis
  proof (cases r)
    case (Some e)
    then show ?thesis
      unfolding apply_attempt_def api0_def[symmetric] l using s1 by simp
  next
    case None
    obtain r2 api2 w2 where sb: "SetBrightness state api1 w1 = (r2, api2, w2)"
      by (cases "SetBrightness state api1 w1")
    obtain rest where "sent w2 = sent w1 @ rest"
      using SetBrightness_grows[of state api1 w1] sb by auto
    then show ?thesis
      unfolding apply_attempt_def api0_def[symmetric] l using s1 None by (simp add: sb)
  qed
qed

lemma updateState_apply:
  "updateState mhAccount state (lastBrightness, w) =
     (if lastBrightness \<noteq> - 1 \<and> state = lastBrightness then (lastBrightness, w)
      else (case apply_attempt mhAccount state w of
              (None, w') \<Rightarrow> (state, w')
            | (Some e, w') \<Rightarrow> (lastBrightness, w')))"
  by (simp add: updateState_def apply_attempt_def Let_def split: prod.splits option.splits)












text \<open>
  C2 fails on the code. When \<open>http.DefaultClient.Do\<close> fails on the request of
  \<open>SetBrightness\<close>, line 281 returns \<open>nil\<close>: the failure is reported as a success and
  \<open>updateState\<close> records the brightness as applied. \<open>ToggleSwitch\<close> returns the error
  in the same place.
\<close>

theorem SetBrightness_connection_failure:
  "net (world_of 1700000000000000000 [ConnFail]) 0 = ConnFail \<and>
   fst (SetBrightness 50 session1 (world_of 1700000000000000000 [ConnFail])) = None \<and>
   sent (snd (snd (SetBrightness 50 session1 (world_of 1700000000000000000 [ConnFail]))))
     = [light_request session1 50] \<and>
   fst (updateState acct0 50
          (- 1, world_of 1700000000000000000 [login_ok ''T1'', list_ok, ConnFail])) = 50 \<and>
   map_option fst (ToggleSwitch True ''4711'' session1 (world_of 1700000000000000000 [ConnFail]))
     = Some (Inl ErrTransport)"
  by code_simp

text \<open>
  C3, as the code has it. \<open>ensureToken\<close>, the check that the commands make, logs in exactly
  when the token is empty and is otherwise a no-op; it does not look at the age of the
  token. \<open>Login\<close> itself sends a login request exactly when the token is empty or the time
  since the last login has reached \<open>LoginInterval\<close>, and is otherwise a no-op.
\<close>

theorem session_gates:
  "(Token api \<noteq> '''' \<longrightarrow> ensureToken api w = (None, api, w)) \<and>
   (Token api = '''' \<longrightarrow> ensureToken api w = Login api w \<and>
      sent (snd (snd (ensureToken api w))) = sent w @ [login_request api]) \<and>
   (Token api = '''' \<or> LoginInterval api \<le> time_Since w (LastLoginTime api) \<longrightarrow>
      sent (snd (snd (Login api w))) = sent w @ [login_request api]) \<and>
   (Token api \<noteq> '''' \<and> time_Since w (LastLoginTime api) < LoginInterval api \<longrightarrow>
      Login api w = (None, api, w))"
  using Login_sent[of api w] Login_skip[of api w]
  by (auto simp: ensureToken_def token_fresh_def)

theorem session_gates_witness:
  "Token session1 \<noteq> '''' \<and> ensureToken session1 late = (None, session1, late) \<and>
   Token new_session0 = '''' \<and> ensureToken new_session0 late = Login new_session0 late \<and>
   sent (snd (snd (ensureToken new_session0 late))) = sent late @ [login_request new_session0] \<and>
   LoginInterval session1 \<le> time_Since late (LastLoginTime session1) \<and>
   sent (snd (snd (Login session1 late))) = sent late @ [login_request session1] \<and>
   time_Since calm (LastLoginTime session1) < LoginInterval session1 \<and>
   Login session1 calm = (None, session1, calm)"
proof -
  have a: "Token session1 \<noteq> ''''" "Token new_session0 = ''''"
    by (simp_all add: session1_def new_session0_def NewMarsHydroAPI_def)
  have b: "LoginInterval session1 \<le> time_Since late (LastLoginTime session1)"
    by (simp add: session1_def NewMarsHydroAPI_def late_def world_of_def time_Since_def
        time_Now_def)
  have c: "time_Since calm (LastLoginTime session1) < LoginInterval session1"
    by (simp add: session1_def NewMarsHydroAPI_def calm_def time_Since_def time_Now_def)
  show ?thesis
    using a b c session_gates[of session1 late] session_gates[of new_session0 late]
      session_gates[of session1 calm]
    by simp
qed

text \<open>
  Against C3 as stated: the token of \<open>session1\<close> is 301 seconds old, which is more than
  the interval of 300 seconds, and \<open>ensureToken\<close> does nothing.
\<close>

theorem ensureToken_ignores_age_counterexample:
  "Token session1 \<noteq> '''' \<and> LoginInterval session1 = 300000000000 \<and>
   time_Since late (LastLoginTime session1) = 301000000000 \<and>
   ensureToken session1 late = (None, session1, late)"
  by (simp add: ensureToken_def session1_def NewMarsHydroAPI_def late_def world_of_def
      time_Since_def time_Now_def)

section \<open>Properties of the reconciliation loop\<close>

text \<open>
  C4, as the code has it. What persists from one tick to the next is the variable
  \<open>lastBrightness\<close> alone. Every call of \<open>updateState\<close> that applies a brightness makes
  a new session with \<open>NewMarsHydroAPI\<close>: whatever happened before, its first request is
  a login that carries an empty token and an empty device id.
\<close>

theorem updateState_new_session:
  "lastBrightness = - 1 \<or> state \<noteq> lastBrightness \<longrightarrow>
     (\<exists>rest. sent (snd (updateState mhAccount state (lastBrightness, w))) =
        sent w @ Request ''https://api.lgledsolutions.com/api/android/ulogin/mailLogin/v1''
                   '''' '''' (LoginBody (cfg_Email mhAccount) (cfg_Password mhAccount)) # rest)"
proof
  assume h: "lastBrightness = - 1 \<or> state \<noteq> lastBrightness"
  obtain r w' where a: "apply_attempt mhAccount state w = (r, w')"
    by (cases "apply_attempt mhAccount state w")
  obtain rest where "sent w' =
      sent w @ login_request (NewMarsHydroAPI (cfg_Email mhAccount) (cfg_Password mhAccount)
        (cfg_Wifiname mhAccount) (cfg_Timezone mhAccount) (cfg_Language mhAccount)) # rest"
    using apply_attempt_sent[of mhAccount state w] a by auto
  then have "sent w' =
      sent w @ Request ''https://api.lgledsolutions.com/api/android/ulogin/mailLogin/v1''
                 '''' '''' (LoginBody (cfg_Email mhAccount) (cfg_Password mhAccount)) # rest"
    by (simp add: login_request_def NewMarsHydroAPI_def)
  then show "\<exists>rest. sent (snd (updateState mhAccount state (lastBrightness, w))) =
        sent w @ Request ''https://api.lgledsolutions.com/api/android/ulogin/mailLogin/v1''
                   '''' '''' (LoginBody (cfg_Email mhAccount) (cfg_Password mhAccount)) # rest"
    using h unfolding updateState_apply a by (cases r) auto
qed

theorem updateState_new_session_witness:
  "((50::int) = - 1 \<or> (60::int) \<noteq> 50) \<and>
   (\<exists>rest. sent (snd (updateState acct0 60 (50, two_ticks))) =
      sent two_ticks @ Request ''https://api.lgledsolutions.com/api/android/ulogin/mailLogin/v1''
                 '''' '''' (LoginBody (cfg_Email acct0) (cfg_Password acct0)) # rest)"
  using updateState_new_session[of 50 60 acct0 two_ticks] by simp

text \<open>
  Against C4 as stated: two ticks a few milliseconds apart, both of which apply. The
  first logs in and receives the token \<open>T1\<close>; the second starts again with a login that
  carries no token, and asks for the device list again.
\<close>

theorem updateState_session_counterexample:
  "fst (ticks acct0 [50, 60] (- 1, two_ticks)) = 60 \<and>
   map hdr_token (sent (snd (ticks acct0 [50, 60] (- 1, two_ticks))))
     = ['''', ''T1'', ''T1'', '''', ''T2'', ''T2''] \<and>
   map hdr_device (sent (snd (ticks acct0 [50, 60] (- 1, two_ticks))))
     = ['''', '''', ''4711'', '''', '''', ''4711''] \<and>
   map payload (sent (snd (ticks acct0 [50, 60] (- 1, two_ticks))))
     = [LoginBody ''grower@example.org'' ''secret'', ListBody, LightBody 50 ''4711'' '''',
        LoginBody ''grower@example.org'' ''secret'', ListBody, LightBody 60 ''4711'' '''']"
  by code_simp

text \<open>
  C7 fails on the code, through the defect of C2: \<open>SetBrightness\<close> returns no error when
  its request fails to connect, and \<open>updateState\<close> then records the target as applied.
  At startup, with a target of 50, a login and a device list that succeed and a connection
  that fails on the brightness request, \<open>lastBrightness\<close> becomes 50 instead of staying
  unknown; the next tick with the same target sends nothing, so the brightness that failed
  is not applied again.
\<close>

theorem updateState_records_failed_apply:
  "net broken_line 2 = ConnFail \<and>
   fst (updateState acct0 50 (- 1, broken_line)) = 50 \<and>
   map payload (sent (snd (updateState acct0 50 (- 1, broken_line))))
     = [LoginBody ''grower@example.org'' ''secret'', ListBody, LightBody 50 ''4711'' ''''] \<and>
   fst (ticks acct0 [50, 50] (- 1, broken_line)) = 50 \<and>
   map payload (sent (snd (ticks acct0 [50, 50] (- 1, broken_line))))
     = [LoginBody ''grower@example.org'' ''secret'', ListBody, LightBody 50 ''4711'' '''']"
  by code_simp

end
